theory Spec2Isabelle
  imports Complex_Main "HOL-Library.Multiset" "HOL-Library.Char_ord"
    "HOL-Library.List_Lexorder" "HOL-Library.Product_Lexorder"
begin

section \<open>Workday Costing Allocations: a model of main.py\<close>

text \<open>
  The script reads one spreadsheet, derives nine output columns row by row, filters,
  sorts and writes a new spreadsheet. The definitions below follow \<^verbatim>\<open>src/main.py\<close>
  function by function and keep its names (a leading underscore is dropped, since a
  constant cannot start with one).

  Conventions of the model.
  \<^item> A Python \<^verbatim>\<open>str\<close> is a \<^typ>\<open>string\<close>. Character classes (whitespace, digits, word
    characters, letter case) are the ASCII ones; a character outside ASCII belongs to
    none of them.
  \<^item> A spreadsheet cell is a \<^typ>\<open>string option\<close>: \<^term>\<open>None\<close> is what \<^verbatim>\<open>pd.isna\<close> accepts,
    \<^term>\<open>Some s\<close> a present cell whose \<^verbatim>\<open>str(cell)\<close> is \<open>s\<close>.
  \<^item> A Python exception is the left summand of a result: \<open>Inl ValueError\<close> and so on.
  \<^item> A float is an exact rational number; \<^verbatim>\<open>np.nan\<close> is \<^term>\<open>None\<close>. Rounding of
    binary floating point is not represented.
  \<^item> The pandas parsers \<^verbatim>\<open>pd.to_datetime\<close> and \<^verbatim>\<open>pd.to_numeric\<close>, the spreadsheet reader
    and the file system are not part of the repository: they are parameters of the
    functions that call them.
\<close>

subsection \<open>Python values and built-in string operations\<close>

type_synonym cell = "string option"

datatype py_error = ValueError | IndexError | KeyError

text \<open>Sequencing of computations that may raise: the first exception wins.\<close>

definition and_then :: "'e + 'a \<Rightarrow> ('a \<Rightarrow> 'e + 'b) \<Rightarrow> 'e + 'b" where
  "and_then r f = (case r of Inl e \<Rightarrow> Inl e | Inr x \<Rightarrow> f x)"

text \<open>\<^verbatim>\<open>xs[i]\<close> on a list: a negative index counts from the end, an index out of range raises.\<close>

definition getitem :: "'a list \<Rightarrow> int \<Rightarrow> py_error + 'a" where
  "getitem xs i =
     (if 0 \<le> i \<and> i < int (length xs) then Inr (xs ! nat i)
      else if i < 0 \<and> - int (length xs) \<le> i then Inr (xs ! nat (int (length xs) + i))
      else Inl IndexError)"

text \<open>
  \<^verbatim>\<open>str.isspace\<close> on ASCII: tab, line feed, vertical tab, form feed, carriage return,
  the four separators 0x1C to 0x1F, and the space.
\<close>

definition isspace :: "char \<Rightarrow> bool" where
  "isspace c = (let n = (of_char c :: nat) in (9 \<le> n \<and> n \<le> 13) \<or> (28 \<le> n \<and> n \<le> 32))"

definition isdigit :: "char \<Rightarrow> bool" where
  "isdigit c = (let n = (of_char c :: nat) in 48 \<le> n \<and> n \<le> 57)"

definition isalpha :: "char \<Rightarrow> bool" where
  "isalpha c = (let n = (of_char c :: nat) in (65 \<le> n \<and> n \<le> 90) \<or> (97 \<le> n \<and> n \<le> 122))"

text \<open>The class \<^verbatim>\<open>\w\<close> of the \<^verbatim>\<open>re\<close> module: letters, digits and the underscore.\<close>

definition isword :: "char \<Rightarrow> bool" where
  "isword c = (isalpha c \<or> isdigit c \<or> c = CHR ''_'')"

definition upper_char :: "char \<Rightarrow> char" where
  "upper_char c =
     (case map_of (zip ''abcdefghijklmnopqrstuvwxyz'' ''ABCDEFGHIJKLMNOPQRSTUVWXYZ'') c of
        None \<Rightarrow> c | Some u \<Rightarrow> u)"

definition upper :: "string \<Rightarrow> string" where
  "upper s = map upper_char s"

definition lower_char :: "char \<Rightarrow> char" where
  "lower_char c =
     (case map_of (zip ''ABCDEFGHIJKLMNOPQRSTUVWXYZ'' ''abcdefghijklmnopqrstuvwxyz'') c of
        None \<Rightarrow> c | Some l \<Rightarrow> l)"

definition lower :: "string \<Rightarrow> string" where
  "lower s = map lower_char s"

text \<open>\<^verbatim>\<open>str.strip()\<close>: whitespace is removed at both ends.\<close>

definition lstrip :: "string \<Rightarrow> string" where
  "lstrip s = dropWhile isspace s"

definition rstrip :: "string \<Rightarrow> string" where
  "rstrip s = rev (dropWhile isspace (rev s))"

definition strip :: "string \<Rightarrow> string" where
  "strip s = rstrip (lstrip s)"

text \<open>
  \<^verbatim>\<open>s.split(sep)\<close> for a separator of one character: one part more than there are
  separators, empty parts included.
\<close>

fun split_on :: "char \<Rightarrow> string \<Rightarrow> string list" where
  "split_on sep [] = [[]]"
| "split_on sep (c # cs) =
     (if c = sep then [] # split_on sep cs
      else (case split_on sep cs of [] \<Rightarrow> [[c]] | p # ps \<Rightarrow> (c # p) # ps))"

text \<open>
  \<^verbatim>\<open>s.split()\<close>: skip whitespace, take the characters up to the next whitespace as a
  token, repeat. No token is empty.
\<close>

function split_ws :: "string \<Rightarrow> string list" where
  "split_ws s =
     (case dropWhile isspace s of
        [] \<Rightarrow> []
      | c # cs \<Rightarrow> (c # takeWhile (\<lambda>x. \<not> isspace x) cs) # split_ws (dropWhile (\<lambda>x. \<not> isspace x) cs))"
  by pat_completeness auto
termination
proof (relation "measure length")
  show "wf (measure length)" by simp
next
  fix s :: string and c cs
  assume "dropWhile isspace s = c # cs"
  then have "length cs < length s"
    by (metis length_dropWhile_le length_Cons less_Suc_eq_le not_less)
  moreover have "length (dropWhile (\<lambda>x. \<not> isspace x) cs) \<le> length cs"
    by (rule length_dropWhile_le)
  ultimately show "(dropWhile (\<lambda>x. \<not> isspace x) cs, s) \<in> measure length" by simp
qed

declare split_ws.simps [simp del]

text \<open>\<^verbatim>\<open>s.replace(old, new)\<close> for an \<open>old\<close> of one character.\<close>

definition replace :: "char \<Rightarrow> string \<Rightarrow> string \<Rightarrow> string" where
  "replace old new s = concat (map (\<lambda>c. if c = old then new else [c]) s)"

text \<open>The idiom \<^verbatim>\<open>"" if pd.isna(c) else str(c).strip()\<close> that the script uses on cells.\<close>

definition cell_text :: "cell \<Rightarrow> string" where
  "cell_text c = (case c of None \<Rightarrow> [] | Some t \<Rightarrow> strip t)"

subsection \<open>Worker names (\<^verbatim>\<open>_split_worker_name\<close>, lines 102 to 123)\<close>

text \<open>
  Every subscript of the source is a \<^const>\<open>getitem\<close> that may raise. The conditional
  expressions guard \<^verbatim>\<open>parts[0]\<close> and \<^verbatim>\<open>parts[1]\<close>; \<^verbatim>\<open>parts[1].split()[0]\<close>,
  \<^verbatim>\<open>tokens[0]\<close> and \<^verbatim>\<open>tokens[-1]\<close> are not guarded in the source.
\<close>

definition split_worker_name :: "cell \<Rightarrow> py_error + (string \<times> string)" where
  "split_worker_name worker_cell =
     (let s = (case worker_cell of None \<Rightarrow> [] | Some t \<Rightarrow> strip t) in
      if s = [] then Inr ([], [])
      else if CHR '','' \<in> set s then
        (let parts = filter (\<lambda>p. p \<noteq> []) (map strip (split_on (CHR '','') s)) in
         and_then (if 1 \<le> length parts then getitem parts 0 else Inr []) (\<lambda>last.
         and_then (if 2 \<le> length parts
                   then and_then (getitem parts 1) (\<lambda>p. getitem (split_ws p) 0)
                   else Inr []) (\<lambda>first.
         Inr (first, last))))
      else
        (let tokens = split_ws s in
         if length tokens = 1 then and_then (getitem tokens 0) (\<lambda>t. Inr (t, []))
         else and_then (getitem tokens 0) (\<lambda>t0.
              and_then (getitem tokens (- 1)) (\<lambda>t1. Inr (t0, t1)))))"

text \<open>
  The vocabulary of the specification of the name split: the trimmed non-empty
  comma-separated parts of a text, and the first whitespace-delimited token of a part.
\<close>

definition comma_parts :: "string \<Rightarrow> string list" where
  "comma_parts s = filter (\<lambda>p. p \<noteq> []) (map strip (split_on (CHR '','') s))"

definition first_token :: "string \<Rightarrow> string" where
  "first_token p = (case split_ws p of [] \<Rightarrow> [] | t # _ \<Rightarrow> t)"

subsection \<open>Cost center codes (\<^verbatim>\<open>_extract_cc_number\<close>, lines 92 to 99)\<close>

text \<open>
  \<^verbatim>\<open>re.search(r"\bCC\d+\b", s, flags=re.IGNORECASE)\<close> as a backtracking matcher.
  A word boundary \<^verbatim>\<open>\b\<close> lies between two positions exactly one of which holds a word
  character; the start and the end of the text count as holding none.
\<close>

definition is_word_opt :: "char option \<Rightarrow> bool" where
  "is_word_opt x = (case x of None \<Rightarrow> False | Some c \<Rightarrow> isword c)"

definition word_boundary :: "char option \<Rightarrow> char option \<Rightarrow> bool" where
  "word_boundary prev nxt = (is_word_opt prev \<noteq> is_word_opt nxt)"

text \<open>The letter \<^verbatim>\<open>C\<close> under \<^verbatim>\<open>re.IGNORECASE\<close>.\<close>

definition is_C :: "char \<Rightarrow> bool" where
  "is_C c = (c = CHR ''C'' \<or> c = CHR ''c'')"

text \<open>
  \<^verbatim>\<open>\d*\b\<close> after a digit \<open>p\<close> has been consumed: the greedy quantifier takes a
  further digit first and falls back to stopping here when the rest fails.
\<close>

fun digits_then_boundary :: "char \<Rightarrow> string \<Rightarrow> string option" where
  "digits_then_boundary p [] = (if word_boundary (Some p) None then Some [] else None)"
| "digits_then_boundary p (c # cs) =
     (case (if isdigit c then digits_then_boundary c cs else None) of
        Some m \<Rightarrow> Some (c # m)
      | None \<Rightarrow> if word_boundary (Some p) (Some c) then Some [] else None)"

text \<open>The whole pattern anchored at the current position; \<open>prev\<close> is the character before it.\<close>

fun match_here :: "char option \<Rightarrow> string \<Rightarrow> string option" where
  "match_here prev (a # b # d # rest) =
     (if word_boundary prev (Some a) \<and> is_C a \<and> is_C b \<and> isdigit d
      then map_option (\<lambda>m. a # b # d # m) (digits_then_boundary d rest)
      else None)"
| "match_here prev _ = None"

text \<open>\<^verbatim>\<open>re.search\<close>: the first position, from the left, where the pattern matches.\<close>

fun re_search :: "char option \<Rightarrow> string \<Rightarrow> string option" where
  "re_search prev [] = match_here prev []"
| "re_search prev (c # cs) =
     (case match_here prev (c # cs) of
        Some m \<Rightarrow> Some m
      | None \<Rightarrow> re_search (Some c) cs)"

definition extract_cc_number :: "cell \<Rightarrow> string" where
  "extract_cc_number cost_center_cell =
     (let s = (case cost_center_cell of None \<Rightarrow> [] | Some t \<Rightarrow> strip t) in
      case re_search None s of
        Some m \<Rightarrow> upper m
      | None \<Rightarrow> [])"

text \<open>
  The vocabulary of the specification of the extraction. A token is \<^verbatim>\<open>CC\<close> in either
  case followed by one or more digits. An occurrence \<open>pre @ m @ post\<close> of a token \<open>m\<close>
  stands as a whole word when no word character touches it on either side.
\<close>

definition cc_token :: "string \<Rightarrow> bool" where
  "cc_token m =
     (case m of
        a # b # d # ds \<Rightarrow> is_C a \<and> is_C b \<and> isdigit d \<and> list_all isdigit ds
      | _ \<Rightarrow> False)"

definition whole_word :: "string \<Rightarrow> string \<Rightarrow> bool" where
  "whole_word pre post = ((pre = [] \<or> \<not> isword (last pre)) \<and> (post = [] \<or> \<not> isword (hd post)))"

definition ctx_before :: "char option \<Rightarrow> string \<Rightarrow> char option" where
  "ctx_before prev pre = (if pre = [] then prev else Some (last pre))"

definition ctx_after :: "string \<Rightarrow> char option" where
  "ctx_after post = (case post of [] \<Rightarrow> None | c # _ \<Rightarrow> Some c)"

text \<open>
  The extraction as the words "the case-insensitive match of CC followed by one or more
  digits" describe it, with no condition on the neighbouring characters: the first
  position where two letters C and a digit stand, with all the digits that follow,
  upper-cased.
\<close>

fun spec_cc_match :: "string \<Rightarrow> string" where
  "spec_cc_match (a # b # d # rest) =
     (if is_C a \<and> is_C b \<and> isdigit d then upper (a # b # d # takeWhile isdigit rest)
      else spec_cc_match (b # d # rest))"
| "spec_cc_match _ = []"

subsection \<open>FTE and Distribution Percent (\<^verbatim>\<open>_parse_fte\<close>, lines 126 to 140; lines 222 to 223)\<close>

text \<open>\<^verbatim>\<open>re.sub(r"[^0-9.\-]", "", s)\<close>: only digits, dots and minus signs are kept.\<close>

definition keep_numeric :: "string \<Rightarrow> string" where
  "keep_numeric s = filter (\<lambda>c. isdigit c \<or> c = CHR ''.'' \<or> c = CHR ''-'') s"

definition digit_value :: "char \<Rightarrow> nat" where
  "digit_value c = of_char c - 48"

definition digits_value :: "string \<Rightarrow> nat" where
  "digits_value ds = foldl (\<lambda>n c. 10 * n + digit_value c) 0 ds"

text \<open>
  The built-in \<^verbatim>\<open>float(s)\<close> on the texts that \<^const>\<open>keep_numeric\<close> leaves, which hold
  nothing but digits, dots and minus signs: an optional leading minus sign, then digits
  with at most one dot and at least one digit. Anything else raises \<^verbatim>\<open>ValueError\<close>.
\<close>

definition float_unsigned :: "string \<Rightarrow> rat option" where
  "float_unsigned s =
     (let ip = takeWhile isdigit s in
      case dropWhile isdigit s of
        [] \<Rightarrow> if ip = [] then None else Some (of_nat (digits_value ip))
      | c # fp \<Rightarrow>
          if c = CHR ''.'' \<and> list_all isdigit fp \<and> (ip \<noteq> [] \<or> fp \<noteq> [])
          then Some (of_nat (digits_value ip) + of_nat (digits_value fp) / 10 ^ length fp)
          else None)"

definition py_float :: "string \<Rightarrow> py_error + rat" where
  "py_float s =
     (case (case s of
              [] \<Rightarrow> None
            | c # t \<Rightarrow> if c = CHR ''-'' then map_option uminus (float_unsigned t)
                       else float_unsigned s) of
        None \<Rightarrow> Inl ValueError
      | Some v \<Rightarrow> Inr v)"

definition parse_fte :: "cell \<Rightarrow> py_error + rat option" where
  "parse_fte fte_cell =
     (case fte_cell of
        None \<Rightarrow> Inr None
      | Some t \<Rightarrow>
          (let s = replace (CHR ''%'') [] (strip t);
               s = keep_numeric s
           in if s = [] then Inr None
              else and_then (py_float s) (\<lambda>val.
                   Inr (Some (if 1 < val then val / 100 else val)))))"

text \<open>
  \<^verbatim>\<open>np.where(dist > 1, dist / 100, dist)\<close> on one entry of the column that
  \<^verbatim>\<open>pd.to_numeric(..., errors="coerce")\<close> returned; a comparison with \<^verbatim>\<open>nan\<close> is false.
\<close>

definition distribution_percent :: "rat option \<Rightarrow> rat option" where
  "distribution_percent d =
     (case d of None \<Rightarrow> None | Some v \<Rightarrow> Some (if 1 < v then v / 100 else v))"

subsection \<open>Dates (\<^verbatim>\<open>_format_mmddyyyy\<close>, lines 143 to 155)\<close>

record date =
  year :: nat
  month :: nat
  day :: nat

fun str_nat :: "nat \<Rightarrow> string" where
  "str_nat n =
     (if n < 10 then [''0123456789'' ! n]
      else str_nat (n div 10) @ [''0123456789'' ! (n mod 10)])"

declare str_nat.simps [simp del]

definition zfill :: "nat \<Rightarrow> string \<Rightarrow> string" where
  "zfill w s = replicate (w - length s) (CHR ''0'') @ s"

text \<open>
  \<^verbatim>\<open>strftime\<close> with the formats \<^verbatim>\<open>%m/%d/%Y\<close> and \<^verbatim>\<open>%m_%d_%Y\<close>: month and day on two
  digits, the year on four, joined by \<open>sep\<close>.
\<close>

definition strftime_mdY :: "string \<Rightarrow> date \<Rightarrow> string" where
  "strftime_mdY sep d =
     zfill 2 (str_nat (month d)) @ sep @ zfill 2 (str_nat (day d)) @ sep @ zfill 4 (str_nat (year d))"

text \<open>
  The parameter \<open>to_datetime\<close> stands for \<^verbatim>\<open>pd.to_datetime\<close>: \<^term>\<open>None\<close> when the text is
  not a date (the call raises, or returns \<^verbatim>\<open>NaT\<close> under \<^verbatim>\<open>errors="coerce"\<close>).
\<close>

definition format_mmddyyyy :: "(string \<Rightarrow> date option) \<Rightarrow> cell \<Rightarrow> string" where
  "format_mmddyyyy to_datetime date_cell =
     (case date_cell of
        None \<Rightarrow> []
      | Some t \<Rightarrow>
          if strip t = [] then []
          else (case to_datetime t of
                  None \<Rightarrow> []
                | Some dt \<Rightarrow> strftime_mdY ''/'' dt))"

text \<open>
  The derived CostCenter as those words describe it: the match in the allocation-level
  cell when it is not empty, otherwise the match in the organization-level cell.
\<close>

definition spec_cost_center :: "cell \<Rightarrow> cell \<Rightarrow> string" where
  "spec_cost_center alloc_cell org_cell =
     (if spec_cc_match (cell_text alloc_cell) \<noteq> [] then spec_cc_match (cell_text alloc_cell)
      else spec_cc_match (cell_text org_cell))"

subsection \<open>The table transformer (\<^verbatim>\<open>ReadInCostingAllocationsFile\<close>, lines 174 to 258)\<close>

text \<open>
  A data frame is the list of its column names and the list of its rows, a row mapping
  every column name to a cell. An output row is the record of the nine output columns.
\<close>

type_synonym row = "string \<Rightarrow> cell"

record dataframe =
  columns :: "string list"
  rows :: "row list"

record out_row =
  CostCenter :: string
  LastName :: string
  FirstName :: string
  Title :: string
  FTE :: "rat option"
  StartDate :: string
  EndDate :: string
  DistributionPercent :: "rat option"
  Budget :: string

text \<open>What a run does to the outside world, in the order in which it does it.\<close>

datatype event =
    AskOpenFile
  | ReadHeader string
  | MakeDirs string
  | PathExists string
  | ReadTable string
  | ShowError string
  | WriteExcel string "out_row list"
  | ShowInfo string

text \<open>\<^verbatim>\<open>_extract_budget_number\<close> (lines 158 to 171): the loop over Program, Grant and Gift.\<close>

fun budget_loop :: "string list \<Rightarrow> string list \<Rightarrow> row \<Rightarrow> py_error + string" where
  "budget_loop [] index r = Inr []"
| "budget_loop (col # cols) index r =
     (if col \<in> set index
      then (let v = cell_text (r col) in
            if v \<noteq> [] then getitem (split_ws v) 0 else budget_loop cols index r)
      else budget_loop cols index r)"

definition extract_budget_number :: "string list \<Rightarrow> row \<Rightarrow> py_error + string" where
  "extract_budget_number index r = budget_loop [''Program'', ''Grant'', ''Gift''] index r"

text \<open>
  \<^verbatim>\<open>_pick_cost_center\<close> (lines 206 to 209). \<open>cc_alloc_col\<close> and \<open>cc_org_col\<close> are the two
  column names of lines 196 and 197, \<^term>\<open>None\<close> when the column is absent.
\<close>

definition pick_cost_center :: "string option \<Rightarrow> string option \<Rightarrow> row \<Rightarrow> string" where
  "pick_cost_center cc_alloc_col cc_org_col r =
     (let alloc = (case cc_alloc_col of Some col \<Rightarrow> extract_cc_number (r col) | None \<Rightarrow> []);
          org = (case cc_org_col of Some col \<Rightarrow> extract_cc_number (r col) | None \<Rightarrow> [])
      in if alloc \<noteq> [] then alloc else org)"

text \<open>
  Lines 211 to 225 build the output frame column by column, each column a row-wise map
  of the input frame; \<open>derive_row\<close> evaluates the nine column expressions on one row.
  The parameter \<open>to_numeric\<close> stands for \<^verbatim>\<open>pd.to_numeric(..., errors="coerce")\<close> on one
  cell.
\<close>

definition derive_row ::
  "(string \<Rightarrow> date option) \<Rightarrow> (cell \<Rightarrow> rat option) \<Rightarrow> string list \<Rightarrow>
   string option \<Rightarrow> string option \<Rightarrow> row \<Rightarrow> py_error + out_row" where
  "derive_row to_datetime to_numeric index cc_alloc_col cc_org_col r =
     and_then (split_worker_name (r ''Worker'')) (\<lambda>first_last.
     and_then (parse_fte (r ''FTE'')) (\<lambda>fte.
     and_then (extract_budget_number index r) (\<lambda>budget.
     Inr \<lparr> CostCenter = pick_cost_center cc_alloc_col cc_org_col r,
           LastName = snd first_last,
           FirstName = fst first_last,
           Title = cell_text (r ''Title''),
           FTE = fte,
           StartDate = format_mmddyyyy to_datetime (r ''Start Date''),
           EndDate = format_mmddyyyy to_datetime (r ''End Date''),
           DistributionPercent = distribution_percent (to_numeric (r ''Distribution Percent'')),
           Budget = budget \<rparr>)))"

fun collect :: "('e + 'a) list \<Rightarrow> 'e + 'a list" where
  "collect [] = Inr []"
| "collect (x # xs) = and_then x (\<lambda>y. and_then (collect xs) (\<lambda>ys. Inr (y # ys)))"

text \<open>\<^verbatim>\<open>df.dropna(how="all")\<close>: a row stays when some cell of it is present.\<close>

definition dropna_all :: "dataframe \<Rightarrow> dataframe" where
  "dropna_all df = df\<lparr>rows := filter (\<lambda>r. \<exists>c\<in>set (columns df). r c \<noteq> None) (rows df)\<rparr>"

definition required :: "string list" where
  "required = [''Worker'', ''Title'', ''FTE'', ''Start Date'', ''End Date'', ''Distribution Percent'']"

text \<open>The negated mask of lines 228 to 234.\<close>

definition has_identity :: "out_row \<Rightarrow> bool" where
  "has_identity r = (\<not> (CostCenter r = [] \<and> FirstName r = [] \<and> LastName r = []))"

text \<open>
  The sort key of lines 252 to 256. Python compares strings character by character and
  a proper prefix comes first, which is the order of \<^typ>\<open>string\<close> here; pairs are
  compared lexicographically.
\<close>

definition sort_key_of :: "out_row \<Rightarrow> string \<times> string" where
  "sort_key_of r = (CostCenter r, LastName r)"

text \<open>The output frame before the filter: every row of the input frame derived, in order.\<close>

definition derive_rows ::
  "(string \<Rightarrow> date option) \<Rightarrow> (cell \<Rightarrow> rat option) \<Rightarrow> dataframe \<Rightarrow> py_error + out_row list" where
  "derive_rows to_datetime to_numeric df =
     (let cc_org_col = (if ''Cost Center'' \<in> set (columns df) then Some ''Cost Center'' else None);
          cc_alloc_col = (if ''Cost Center.1'' \<in> set (columns df) then Some ''Cost Center.1'' else None)
      in collect (map (derive_row to_datetime to_numeric (columns df) cc_alloc_col cc_org_col) (rows df)))"

text \<open>
  The function itself. The parameter \<open>read_excel\<close> stands for
  \<^verbatim>\<open>pd.read_excel(filename, header=16)\<close>. The result is the list of events and either an
  exception, \<^term>\<open>None\<close> (the source returns \<^verbatim>\<open>None\<close> after an error dialog) or the output
  frame. \<^verbatim>\<open>sort_values(..., kind="mergesort")\<close> is pandas' stable sort, here
  \<^const>\<open>sort_key\<close>.
\<close>

definition ReadInCostingAllocationsFile ::
  "(string \<Rightarrow> date option) \<Rightarrow> (cell \<Rightarrow> rat option) \<Rightarrow> (string \<Rightarrow> dataframe) \<Rightarrow> string \<Rightarrow>
   event list \<times> (py_error + out_row list option)" where
  "ReadInCostingAllocationsFile to_datetime to_numeric read_excel filename =
     (let df = dropna_all (read_excel filename);
          missing = filter (\<lambda>c. c \<notin> set (columns df)) required
      in if missing \<noteq> [] then ([ReadTable filename, ShowError ''column name error''], Inr None)
         else if ''Cost Center'' \<notin> set (columns df) \<and> ''Cost Center.1'' \<notin> set (columns df)
         then ([ReadTable filename, ShowError ''column name error''], Inr None)
         else ([ReadTable filename],
               and_then (derive_rows to_datetime to_numeric df) (\<lambda>out.
               Inr (Some (sort_key sort_key_of (filter has_identity out))))))"

subsection \<open>The header reader and the output name (lines 21 to 89)\<close>

record OutPutClass =
  EffectiveDate :: string

definition OUTPUT_DIR :: string where
  "OUTPUT_DIR = ''TEMP''"

text \<open>\<^verbatim>\<open>os.path.join\<close> of two components, with the POSIX separator.\<close>

definition path_join :: "string \<Rightarrow> string \<Rightarrow> string" where
  "path_join a b =
     (if b \<noteq> [] \<and> hd b = CHR ''/'' then b
      else if a = [] \<or> last a = CHR ''/'' then a @ b
      else a @ ''/'' @ b)"

text \<open>
  \<^verbatim>\<open>CreateOutPutFileName\<close> (lines 68 to 89). \<^verbatim>\<open>pd.to_datetime(raw_date)\<close> raising, or
  \<^verbatim>\<open>strftime\<close> raising on \<^verbatim>\<open>NaT\<close>, is the \<^term>\<open>None\<close> of \<open>to_datetime\<close>: the
  \<^verbatim>\<open>except\<close> branch. The character 0x5C is the backslash.
\<close>

definition CreateOutPutFileName ::
  "(string \<Rightarrow> date option) \<Rightarrow> OutPutClass \<Rightarrow> event list \<times> string" where
  "CreateOutPutFileName to_datetime outputData =
     (let raw_date = strip (EffectiveDate outputData);
          formatted_date =
            (if raw_date = [] then ''unknowndate''
             else (case to_datetime raw_date of
                     Some date_obj \<Rightarrow> strftime_mdY ''_'' date_obj
                   | None \<Rightarrow>
                       replace (CHR '':'') ''_''
                         (replace (CHR 0x5C) ''_'' (replace (CHR ''/'') ''_'' raw_date))));
          filename = formatted_date @ '' Costing Allocations.xlsx''
      in ([MakeDirs OUTPUT_DIR], path_join OUTPUT_DIR filename))"

text \<open>
  The token of the output name as the specification words it: the replacement is one
  pass that maps each of the three characters to an underscore.
\<close>

definition sanitize :: "string \<Rightarrow> string" where
  "sanitize s = map (\<lambda>c. if c = CHR ''/'' \<or> c = CHR 0x5C \<or> c = CHR '':'' then CHR ''_'' else c) s"

definition spec_token :: "(string \<Rightarrow> date option) \<Rightarrow> string \<Rightarrow> string" where
  "spec_token to_datetime effective_date =
     (if strip effective_date = [] then ''unknowndate''
      else (case to_datetime (strip effective_date) of
              Some d \<Rightarrow> zfill 2 (str_nat (month d)) @ ''_'' @ zfill 2 (str_nat (day d)) @ ''_''
                          @ zfill 4 (str_nat (year d))
            | None \<Rightarrow> sanitize (strip effective_date)))"

text \<open>
  \<^verbatim>\<open>ReadInFirst15Lines\<close> (lines 47 to 65). A header row is the list of its cells;
  \<^verbatim>\<open>row[0]\<close> and \<^verbatim>\<open>row[1]\<close> raise \<^verbatim>\<open>KeyError\<close> on a frame that has no such column.
\<close>

definition row_get :: "cell list \<Rightarrow> nat \<Rightarrow> py_error + cell" where
  "row_get r i = (if i < length r then Inr (r ! i) else Inl KeyError)"

fun header_loop :: "cell list list \<Rightarrow> OutPutClass \<Rightarrow> py_error + OutPutClass" where
  "header_loop [] output = Inr output"
| "header_loop (r # rs) output =
     and_then (row_get r 0) (\<lambda>k.
       case k of
         None \<Rightarrow> header_loop rs output
       | Some kt \<Rightarrow>
           (let key = replace (CHR ''_'') [] (replace (CHR '' '') [] (lower (strip kt))) in
            and_then (row_get r 1) (\<lambda>v.
              let val = cell_text v in
              header_loop rs
                (if key = ''effectivedate'' then output\<lparr>EffectiveDate := val\<rparr> else output))))"

definition ReadInFirst15Lines ::
  "(string \<Rightarrow> cell list list) \<Rightarrow> string \<Rightarrow> event list \<times> (py_error + OutPutClass)" where
  "ReadInFirst15Lines read_header filename =
     ([ReadHeader filename], header_loop (read_header filename) \<lparr>EffectiveDate = []\<rparr>)"

subsection \<open>The driver (\<^verbatim>\<open>main\<close>, lines 304 to 328)\<close>

text \<open>
  The world of a run: the answer of the file dialog (empty when the user cancels), the
  contents of the spreadsheet, which paths exist, and the two pandas parsers.
\<close>

record world =
  selection :: string
  read_header :: "string \<Rightarrow> cell list list"
  read_excel :: "string \<Rightarrow> dataframe"
  path_exists :: "string \<Rightarrow> bool"
  to_datetime :: "string \<Rightarrow> date option"
  to_numeric :: "cell \<Rightarrow> rat option"

datatype outcome = Cancelled | AlreadyExists | StructuralError | Raised py_error | Done

definition main :: "world \<Rightarrow> event list \<times> outcome" where
  "main w =
     (let file_to_open = selection w in
      if file_to_open = [] then ([AskOpenFile], Cancelled)
      else
        (case ReadInFirst15Lines (read_header w) file_to_open of
           (ev1, Inl e) \<Rightarrow> ([AskOpenFile] @ ev1, Raised e)
         | (ev1, Inr header_data) \<Rightarrow>
             (case CreateOutPutFileName (to_datetime w) header_data of
                (ev2, output_file_path) \<Rightarrow>
                  if path_exists w output_file_path
                  then ([AskOpenFile] @ ev1 @ ev2
                          @ [PathExists output_file_path, ShowError ''file already exists''],
                        AlreadyExists)
                  else
                    (case ReadInCostingAllocationsFile (to_datetime w) (to_numeric w)
                            (read_excel w) file_to_open of
                       (ev3, Inl e) \<Rightarrow>
                         ([AskOpenFile] @ ev1 @ ev2 @ [PathExists output_file_path] @ ev3,
                          Raised e)
                     | (ev3, Inr None) \<Rightarrow>
                         ([AskOpenFile] @ ev1 @ ev2 @ [PathExists output_file_path] @ ev3,
                          StructuralError)
                     | (ev3, Inr (Some df_out)) \<Rightarrow>
                         ([AskOpenFile] @ ev1 @ ev2 @ [PathExists output_file_path] @ ev3
                            @ [WriteExcel output_file_path df_out, ShowInfo ''Done''],
                          Done)))))"

text \<open>Predicates on events, for statements about what a run reads and writes.\<close>

definition is_write :: "event \<Rightarrow> bool" where
  "is_write e = (case e of WriteExcel _ _ \<Rightarrow> True | _ \<Rightarrow> False)"

definition is_table_read :: "event \<Rightarrow> bool" where
  "is_table_read e = (case e of ReadTable _ \<Rightarrow> True | _ \<Rightarrow> False)"

definition is_header_read :: "event \<Rightarrow> bool" where
  "is_header_read e = (case e of ReadHeader _ \<Rightarrow> True | _ \<Rightarrow> False)"

section \<open>Properties\<close>

subsection \<open>A sample frame\<close>

text \<open>
  Four data rows under the required columns and one Cost Center column: the second row
  has a title and nothing that identifies it, the first and the fourth share cost
  center and last name.
\<close>

definition sample_frame :: dataframe where
  "sample_frame =
     \<lparr>columns = required @ [''Cost Center''],
      rows = [map_of [(''Worker'', ''Smith, Al''), (''Cost Center'', ''Chem CC2''), (''FTE'', ''50'')],
              map_of [(''Title'', ''Dean'')],
              map_of [(''Worker'', ''Bo Jones''), (''Cost Center'', ''CC10 Physics''), (''FTE'', ''1'')],
              map_of [(''Worker'', ''Smith, Cy''), (''Cost Center'', ''cc2'')]]\<rparr>"

definition sample_derived :: "out_row list" where
  "sample_derived =
     [\<lparr>CostCenter = ''CC2'', LastName = ''Smith'', FirstName = ''Al'', Title = [],
       FTE = Some (1 / 2), StartDate = [], EndDate = [], DistributionPercent = None, Budget = []\<rparr>,
      \<lparr>CostCenter = [], LastName = [], FirstName = [], Title = ''Dean'',
       FTE = None, StartDate = [], EndDate = [], DistributionPercent = None, Budget = []\<rparr>,
      \<lparr>CostCenter = ''CC10'', LastName = ''Jones'', FirstName = ''Bo'', Title = [],
       FTE = Some 1, StartDate = [], EndDate = [], DistributionPercent = None, Budget = []\<rparr>,
      \<lparr>CostCenter = ''CC2'', LastName = ''Smith'', FirstName = ''Cy'', Title = [],
       FTE = None, StartDate = [], EndDate = [], DistributionPercent = None, Budget = []\<rparr>]"

definition sample_output :: "out_row list" where
  "sample_output = [sample_derived ! 2, sample_derived ! 0, sample_derived ! 3]"

text \<open>
  A sample run: the user picks \<^verbatim>\<open>in.xlsx\<close>, whose header block names the effective date
  \<^verbatim>\<open>Q1/Q2\<close>, and the output path computed from it is already there.
\<close>

definition sample_world :: world where
  "sample_world =
     \<lparr>selection = ''in.xlsx'',
      read_header = (\<lambda>f. [[None, Some ''x''], [Some ''Effective_Date '', Some '' Q1/Q2 '']]),
      read_excel = (\<lambda>f. sample_frame),
      path_exists = (\<lambda>p. p = ''TEMP/Q1_Q2 Costing Allocations.xlsx''),
      to_datetime = Map.empty,
      to_numeric = Map.empty\<rparr>"

text \<open>
  A sample row with an FTE written as a percentage and a Distribution Percent that
  \<^verbatim>\<open>pd.to_numeric\<close> reads as 75, and the output row derived from it.
\<close>

definition sample_columns :: "string list" where
  "sample_columns = required @ [''Cost Center'']"

definition sample_percent_row :: row where
  "sample_percent_row =
     map_of [(''Worker'', ''Doe, Jane''), (''Cost Center'', ''CC0075 Biology''),
             (''FTE'', '' 12.5 % ''), (''Distribution Percent'', ''75'')]"

definition sample_percent_out :: out_row where
  "sample_percent_out =
     \<lparr>CostCenter = ''CC0075'', LastName = ''Doe'', FirstName = ''Jane'', Title = [],
      FTE = Some (1 / 8), StartDate = [], EndDate = [], DistributionPercent = Some (3 / 4),
      Budget = []\<rparr>"

subsection \<open>Auxiliary facts\<close>

lemma isspace_comma [simp]: "\<not> isspace (CHR '','')"
  by (simp add: isspace_def)

lemma split_ws_Nil [simp]: "split_ws [] = []"
  by (simp add: split_ws.simps)

lemma split_ws_Cons:
  "split_ws (c # cs) =
     (if isspace c then split_ws cs
      else (c # takeWhile (\<lambda>x. \<not> isspace x) cs) # split_ws (dropWhile (\<lambda>x. \<not> isspace x) cs))"
  by (subst split_ws.simps, subst (2) split_ws.simps) simp

lemma split_ws_all_space: "\<forall>c\<in>set s. isspace c \<Longrightarrow> split_ws s = []"
  by (induction s) (simp_all add: split_ws_Cons)

lemma split_ws_snoc_space: "isspace w \<Longrightarrow> split_ws (t @ [w]) = split_ws t"
proof (induction t rule: split_ws.induct)
  case (1 s)
  show ?case
  proof (cases "dropWhile isspace s")
    case Nil
    then have "\<forall>c\<in>set s. isspace c" by (simp add: dropWhile_eq_Nil_conv)
    with 1(2) show ?thesis by (simp add: split_ws_all_space)
  next
    case (Cons c cs)
    then have ex: "\<not> (\<forall>c\<in>set s. isspace c)"
      by (metis dropWhile_eq_Nil_conv list.distinct(1))
    then have d: "dropWhile isspace (s @ [w]) = c # cs @ [w]"
      using Cons by (auto simp: dropWhile_append)
    have t: "takeWhile (\<lambda>x. \<not> isspace x) (cs @ [w]) = takeWhile (\<lambda>x. \<not> isspace x) cs"
      using 1(2) by (induction cs) auto
    have dd: "dropWhile (\<lambda>x. \<not> isspace x) (cs @ [w]) = dropWhile (\<lambda>x. \<not> isspace x) cs @ [w]"
      using 1(2) by (auto simp: dropWhile_append)
    have ih: "split_ws (dropWhile (\<lambda>x. \<not> isspace x) cs @ [w]) = split_ws (dropWhile (\<lambda>x. \<not> isspace x) cs)"
      using 1(1)[OF Cons 1(2)] .
    show ?thesis
      by (subst split_ws.simps, subst (2) split_ws.simps) (simp add: d t dd ih Cons)
  qed
qed

lemma split_ws_append_space: "\<forall>c\<in>set b. isspace c \<Longrightarrow> split_ws (t @ b) = split_ws t"
proof (induction b rule: rev_induct)
  case Nil
  then show ?case by simp
next
  case (snoc x xs)
  then show ?case
    using split_ws_snoc_space[of x "t @ xs"] by simp
qed

lemma rstrip_decomp: "\<exists>b. t = rstrip t @ b \<and> (\<forall>c\<in>set b. isspace c)"
proof -
  have "rev t = takeWhile isspace (rev t) @ dropWhile isspace (rev t)" by simp
  then have "t = rev (dropWhile isspace (rev t)) @ rev (takeWhile isspace (rev t))"
    by (metis rev_append rev_rev_ident)
  moreover have "\<forall>c\<in>set (rev (takeWhile isspace (rev t))). isspace c"
    by (auto dest: set_takeWhileD)
  ultimately show ?thesis unfolding rstrip_def by blast
qed

lemma strip_decomp:
  "\<exists>a b. s = a @ strip s @ b \<and> (\<forall>c\<in>set a. isspace c) \<and> (\<forall>c\<in>set b. isspace c)"
proof -
  obtain b where b: "lstrip s = rstrip (lstrip s) @ b" "\<forall>c\<in>set b. isspace c"
    using rstrip_decomp by blast
  have "s = takeWhile isspace s @ lstrip s" by (simp add: lstrip_def)
  with b have "s = takeWhile isspace s @ strip s @ b" by (simp add: strip_def)
  moreover have "\<forall>c\<in>set (takeWhile isspace s). isspace c" by (auto dest: set_takeWhileD)
  ultimately show ?thesis using b(2) by blast
qed

lemma split_ws_space_append: "\<forall>c\<in>set a. isspace c \<Longrightarrow> split_ws (a @ t) = split_ws t"
  by (induction a) (simp_all add: split_ws_Cons)

lemma split_ws_strip: "split_ws (strip s) = split_ws s"
proof -
  obtain a b where "s = a @ strip s @ b" "\<forall>c\<in>set a. isspace c" "\<forall>c\<in>set b. isspace c"
    using strip_decomp by blast
  then show ?thesis
    by (metis split_ws_space_append split_ws_append_space)
qed

lemma all_dropWhile_iff: "(\<forall>x\<in>set (dropWhile P s). P x) \<longleftrightarrow> (\<forall>x\<in>set s. P x)"
  by (induction s) auto

lemma strip_Nil_iff: "strip s = [] \<longleftrightarrow> (\<forall>c\<in>set s. isspace c)"
  by (simp add: strip_def lstrip_def rstrip_def dropWhile_eq_Nil_conv all_dropWhile_iff)

lemma split_ws_Nil_iff: "split_ws s = [] \<longleftrightarrow> (\<forall>c\<in>set s. isspace c)"
  by (induction s) (auto simp: split_ws_Cons)

lemma strip_space_append: "\<forall>c\<in>set a. isspace c \<Longrightarrow> strip (a @ p) = strip p"
  by (induction a) (simp_all add: strip_def lstrip_def)

lemma rstrip_append_space: "\<forall>c\<in>set b. isspace c \<Longrightarrow> rstrip (q @ b) = rstrip q"
  by (simp add: rstrip_def dropWhile_append)

lemma strip_append_space: "\<forall>c\<in>set b. isspace c \<Longrightarrow> strip (p @ b) = strip p"
proof (cases "\<forall>c\<in>set p. isspace c")
  case True
  assume "\<forall>c\<in>set b. isspace c"
  with True have "strip (p @ b) = []" "strip p = []" by (auto simp: strip_Nil_iff)
  then show ?thesis by simp
next
  case False
  assume b: "\<forall>c\<in>set b. isspace c"
  from False have "lstrip (p @ b) = lstrip p @ b" by (auto simp: lstrip_def dropWhile_append)
  then show ?thesis using b by (simp add: strip_def rstrip_append_space)
qed

lemma split_on_not_Nil [simp]: "split_on sep s \<noteq> []"
  by (induction s) (auto split: list.splits)

lemma split_on_prefix:
  "sep \<notin> set a \<Longrightarrow> split_on sep (a @ s) = (a @ hd (split_on sep s)) # tl (split_on sep s)"
  by (induction a) (auto split: list.splits)

lemma split_on_suffix:
  "sep \<notin> set b \<Longrightarrow> split_on sep (s @ b) = butlast (split_on sep s) @ [last (split_on sep s) @ b]"
proof (induction s)
  case Nil
  then show ?case by (induction b) (auto split: list.splits)
next
  case (Cons c cs)
  then show ?case by (auto split: list.splits)
qed

lemma map_strip_split_on_strip:
  assumes "\<not> isspace sep"
  shows "map strip (split_on sep (strip s)) = map strip (split_on sep s)"
proof -
  obtain a b where s: "s = a @ strip s @ b" and a: "\<forall>c\<in>set a. isspace c" and b: "\<forall>c\<in>set b. isspace c"
    using strip_decomp by blast
  from a b assms have na: "sep \<notin> set a" and nb: "sep \<notin> set b" by auto
  define ps where "ps = split_on sep (strip s)"
  have ne: "ps \<noteq> []" by (simp add: ps_def)
  have "split_on sep s = (a @ hd (butlast ps @ [last ps @ b])) # tl (butlast ps @ [last ps @ b])"
    using split_on_prefix[OF na, of "strip s @ b"] split_on_suffix[OF nb, of "strip s"] s
    by (simp add: ps_def)
  moreover have "map strip ((a @ hd (butlast ps @ [last ps @ b])) # tl (butlast ps @ [last ps @ b])) = map strip ps"
  proof (cases "butlast ps")
    case Nil
    with ne have "ps = [last ps]" by (metis append_butlast_last_id append_Nil)
    then show ?thesis using Nil a b
      by (metis (no_types, lifting) append_Nil hd_Cons_tl list.map(1) list.map(2) list.sel(1) list.sel(3) strip_append_space strip_space_append)
  next
    case (Cons q qs)
    with ne have ps: "ps = q # qs @ [last ps]" by (metis append_butlast_last_id append_Cons)
    have "map strip ((a @ q) # qs @ [last ps @ b]) = map strip (q # qs @ [last ps])"
      using a b by (simp add: strip_append_space strip_space_append)
    then show ?thesis using Cons ps by simp
  qed
  ultimately show ?thesis by (simp add: ps_def)
qed

lemma comma_in_strip: "CHR '','' \<in> set (strip s) \<longleftrightarrow> CHR '','' \<in> set s"
proof -
  obtain a b where s: "s = a @ strip s @ b" and a: "\<forall>c\<in>set a. isspace c" and b: "\<forall>c\<in>set b. isspace c"
    using strip_decomp by blast
  have "set s = set a \<union> set (strip s) \<union> set b" by (subst s) auto
  then show ?thesis using a b isspace_comma by auto
qed

lemma getitem_0: "xs \<noteq> [] \<Longrightarrow> getitem xs 0 = Inr (hd xs)"
  by (cases xs) (simp_all add: getitem_def)

lemma getitem_1: "getitem (x # y # ys) 1 = Inr y"
  by (simp add: getitem_def)

lemma getitem_last: "xs \<noteq> [] \<Longrightarrow> getitem xs (- 1) = Inr (last xs)"
  by (cases xs rule: rev_cases) (simp_all add: getitem_def nth_append)

lemma comma_parts_strip: "comma_parts (strip s) = comma_parts s"
  by (simp add: comma_parts_def map_strip_split_on_strip)

lemma comma_part_tokens: "p \<in> set (comma_parts s) \<Longrightarrow> split_ws p \<noteq> []"
proof -
  assume "p \<in> set (comma_parts s)"
  then obtain q where "p = strip q" "strip q \<noteq> []" by (auto simp: comma_parts_def)
  then show ?thesis
    by (metis split_ws_strip split_ws_Nil_iff strip_Nil_iff)
qed

lemma split_worker_name_Some:
  "split_worker_name (Some s) =
     Inr (if CHR '','' \<in> set s
          then (case comma_parts s of
                  [] \<Rightarrow> ([], [])
                | [l] \<Rightarrow> ([], l)
                | l # p # _ \<Rightarrow> (first_token p, l))
          else (case split_ws s of
                  [] \<Rightarrow> ([], [])
                | [t] \<Rightarrow> (t, [])
                | t # ts \<Rightarrow> (t, last ts)))"
proof (cases "strip s = []")
  case True
  then have sp: "\<forall>c\<in>set s. isspace c" by (simp add: strip_Nil_iff)
  then have "CHR '','' \<notin> set s" using isspace_comma by blast
  moreover have "split_ws s = []" using sp by (simp add: split_ws_Nil_iff)
  ultimately show ?thesis using True by (simp add: split_worker_name_def)
next
  case False
  show ?thesis
  proof (cases "CHR '','' \<in> set s")
    case True
    then have c: "CHR '','' \<in> set (strip s)" by (simp add: comma_in_strip)
    have parts: "filter (\<lambda>p. p \<noteq> []) (map strip (split_on (CHR '','') (strip s))) = comma_parts s"
      using comma_parts_strip[of s] by (simp add: comma_parts_def)
    show ?thesis
    proof (cases "comma_parts s")
      case Nil
      then show ?thesis using False True c parts
        by (simp add: split_worker_name_def and_then_def)
    next
      case (Cons l rest)
      note outer = Cons
      show ?thesis
      proof (cases rest)
        case Nil
        then show ?thesis using False True c parts outer
          by (simp add: split_worker_name_def and_then_def getitem_0)
      next
        case (Cons p more)
        have "p \<in> set (comma_parts s)" using outer Cons by simp
        then have "split_ws p \<noteq> []" by (rule comma_part_tokens)
        then obtain t ts where t: "split_ws p = t # ts" by (cases "split_ws p") auto
        show ?thesis using False True c parts outer Cons t
          by (simp add: split_worker_name_def and_then_def getitem_0 getitem_1 first_token_def)
      qed
    qed
  next
    case nc: False
    then have c: "CHR '','' \<notin> set (strip s)" by (simp add: comma_in_strip)
    have "split_ws s \<noteq> []" using False by (simp add: split_ws_Nil_iff strip_Nil_iff)
    then obtain t ts where t: "split_ws s = t # ts" by (cases "split_ws s") auto
    show ?thesis
    proof (cases ts)
      case Nil
      then show ?thesis using False nc c t
        by (simp add: split_worker_name_def and_then_def getitem_0 split_ws_strip)
    next
      case (Cons u us)
      then have "getitem (t # ts) (- 1) = Inr (last ts)"
        using getitem_last[of "t # ts"] by simp
      then show ?thesis using False nc c t Cons
        by (simp add: split_worker_name_def and_then_def getitem_0 split_ws_strip)
    qed
  qed
qed

lemma isdigit_isword: "isdigit c \<Longrightarrow> isword c"
  by (simp add: isword_def)

lemma is_C_isword: "is_C c \<Longrightarrow> isword c"
  by (auto simp: is_C_def isword_def isalpha_def)

lemma isspace_not_isword: "isspace c \<Longrightarrow> \<not> isword c"
  by (auto simp: isspace_def isword_def isalpha_def isdigit_def Let_def)

lemma digits_sound:
  "digits_then_boundary p rest = Some m \<Longrightarrow> isdigit p \<Longrightarrow>
     \<exists>post. rest = m @ post \<and> list_all isdigit m \<and> \<not> is_word_opt (ctx_after post)"
proof (induction rest arbitrary: p m)
  case Nil
  then show ?case by (auto simp: ctx_after_def is_word_opt_def split: if_splits)
next
  case (Cons c cs)
  show ?case
  proof (cases "if isdigit c then digits_then_boundary c cs else None")
    case None
    with Cons.prems have "m = []" "word_boundary (Some p) (Some c)"
      by (auto split: if_splits)
    then show ?thesis using Cons.prems(2)
      by (auto simp: word_boundary_def is_word_opt_def ctx_after_def isdigit_isword)
  next
    case (Some m')
    then have d: "isdigit c" and r: "digits_then_boundary c cs = Some m'"
      by (auto split: if_splits)
    from Cons.prems Some have m: "m = c # m'" by simp
    from Cons.IH[OF r d] obtain post where "cs = m' @ post" "list_all isdigit m'"
      "\<not> is_word_opt (ctx_after post)" by blast
    then show ?thesis using m d by auto
  qed
qed

lemma digits_complete:
  "isdigit p \<Longrightarrow> list_all isdigit m \<Longrightarrow> \<not> is_word_opt (ctx_after post) \<Longrightarrow>
     digits_then_boundary p (m @ post) = Some m"
proof (induction m arbitrary: p)
  case Nil
  then show ?case
    by (cases post)
       (auto simp: word_boundary_def is_word_opt_def ctx_after_def isdigit_isword)
next
  case (Cons d m)
  then show ?case by simp
qed

lemma match_here_iff:
  "match_here prev s = Some m \<longleftrightarrow>
     (\<exists>post. s = m @ post \<and> cc_token m \<and> \<not> is_word_opt prev \<and> \<not> is_word_opt (ctx_after post))"
proof
  assume h: "match_here prev s = Some m"
  then obtain a b d rest where s: "s = a # b # d # rest"
    by (cases "(prev, s)" rule: match_here.cases) auto
  with h have c: "word_boundary prev (Some a)" "is_C a" "is_C b" "isdigit d"
    by (auto split: if_splits)
  with h s obtain m' where m': "digits_then_boundary d rest = Some m'" "m = a # b # d # m'"
    by auto
  from digits_sound[OF m'(1) c(4)] obtain post where
    "rest = m' @ post" "list_all isdigit m'" "\<not> is_word_opt (ctx_after post)" by blast
  moreover have "\<not> is_word_opt prev"
    using c(1,2) by (auto simp: word_boundary_def is_word_opt_def is_C_isword)
  ultimately show "\<exists>post. s = m @ post \<and> cc_token m \<and> \<not> is_word_opt prev \<and> \<not> is_word_opt (ctx_after post)"
    using s m' c by (auto simp: cc_token_def)
next
  assume "\<exists>post. s = m @ post \<and> cc_token m \<and> \<not> is_word_opt prev \<and> \<not> is_word_opt (ctx_after post)"
  then obtain post where p: "s = m @ post" "cc_token m" "\<not> is_word_opt prev"
    "\<not> is_word_opt (ctx_after post)" by blast
  from p(2) obtain a b d ds where m: "m = a # b # d # ds" "is_C a" "is_C b" "isdigit d"
    "list_all isdigit ds"
    by (auto simp: cc_token_def split: list.splits)
  have "word_boundary prev (Some a)"
    using p(3) m(2) by (simp add: word_boundary_def is_word_opt_def is_C_isword)
  moreover have "digits_then_boundary d (ds @ post) = Some ds"
    using digits_complete[OF m(4) m(5) p(4)] .
  ultimately show "match_here prev s = Some m"
    using p(1) m by simp
qed

lemma re_search_None:
  "re_search prev s = None \<Longrightarrow> s = pre @ m @ post \<Longrightarrow> cc_token m \<Longrightarrow>
     is_word_opt (ctx_before prev pre) \<or> is_word_opt (ctx_after post)"
proof (induction s arbitrary: prev pre)
  case Nil
  then show ?case by (simp add: cc_token_def)
next
  case (Cons c cs)
  from Cons.prems(1) have mh: "match_here prev (c # cs) = None"
    and rs: "re_search (Some c) cs = None"
    by (auto split: option.splits)
  show ?case
  proof (cases pre)
    case Nil
    with Cons.prems(2) have "c # cs = m @ post" by simp
    with mh Cons.prems(3) match_here_iff[of prev "c # cs" m]
    have "is_word_opt prev \<or> is_word_opt (ctx_after post)" by auto
    then show ?thesis using Nil by (simp add: ctx_before_def)
  next
    case (Cons x pre')
    with Cons.prems(2) have "x = c" "cs = pre' @ m @ post" by auto
    from Cons.IH[OF rs this(2) Cons.prems(3)] show ?thesis
      using Cons \<open>x = c\<close> by (auto simp: ctx_before_def split: if_splits)
  qed
qed

lemma re_search_Some:
  "re_search prev s = Some m \<Longrightarrow>
     \<exists>pre post. s = pre @ m @ post \<and> cc_token m
       \<and> \<not> is_word_opt (ctx_before prev pre) \<and> \<not> is_word_opt (ctx_after post)
       \<and> (\<forall>pre' m' post'. s = pre' @ m' @ post' \<and> cc_token m'
             \<and> \<not> is_word_opt (ctx_before prev pre') \<and> \<not> is_word_opt (ctx_after post')
             \<longrightarrow> length pre \<le> length pre')"
proof (induction s arbitrary: prev)
  case Nil
  then show ?case by simp
next
  case (Cons c cs)
  show ?case
  proof (cases "match_here prev (c # cs)")
    case (Some m0)
    with Cons.prems have "m0 = m" by simp
    with Some match_here_iff[of prev "c # cs" m] obtain post where
      "c # cs = m @ post" "cc_token m" "\<not> is_word_opt prev" "\<not> is_word_opt (ctx_after post)"
      by auto
    then have "c # cs = [] @ m @ post \<and> cc_token m
       \<and> \<not> is_word_opt (ctx_before prev []) \<and> \<not> is_word_opt (ctx_after post)
       \<and> (\<forall>pre' m' post'. c # cs = pre' @ m' @ post' \<and> cc_token m'
             \<and> \<not> is_word_opt (ctx_before prev pre') \<and> \<not> is_word_opt (ctx_after post')
             \<longrightarrow> length ([]::string) \<le> length pre')"
      by (simp add: ctx_before_def)
    then show ?thesis by blast
  next
    case None
    with Cons.prems have rs: "re_search (Some c) cs = Some m" by simp
    from Cons.IH[OF rs] obtain pre post where p:
      "cs = pre @ m @ post" "cc_token m"
      "\<not> is_word_opt (ctx_before (Some c) pre)" "\<not> is_word_opt (ctx_after post)"
      and least: "\<And>pre' m' post'. cs = pre' @ m' @ post' \<Longrightarrow> cc_token m' \<Longrightarrow>
             \<not> is_word_opt (ctx_before (Some c) pre') \<Longrightarrow> \<not> is_word_opt (ctx_after post')
             \<Longrightarrow> length pre \<le> length pre'"
      by blast
    have least': "length (c # pre) \<le> length pre'"
      if h: "c # cs = pre' @ m' @ post'" "cc_token m'"
        "\<not> is_word_opt (ctx_before prev pre')" "\<not> is_word_opt (ctx_after post')"
      for pre' m' post'
    proof (cases pre')
      case Nil
      with h have "match_here prev (c # cs) = Some m'"
        using match_here_iff[of prev "c # cs" m'] by (auto simp: ctx_before_def)
      with None show ?thesis by simp
    next
      case (Cons x q)
      with h(1) have "x = c" "cs = q @ m' @ post'" by auto
      moreover have "\<not> is_word_opt (ctx_before (Some c) q)"
        using h(3) Cons \<open>x = c\<close> by (auto simp: ctx_before_def split: if_splits)
      ultimately have "length pre \<le> length q" using least h(2) h(4) by blast
      then show ?thesis using Cons by simp
    qed
    have "c # cs = (c # pre) @ m @ post" using p(1) by simp
    moreover have "\<not> is_word_opt (ctx_before prev (c # pre))"
      using p(3) by (auto simp: ctx_before_def split: if_splits)
    ultimately show ?thesis using p(2) p(4) least' by blast
  qed
qed

lemma whole_word_ctx:
  "whole_word pre post \<longleftrightarrow> \<not> is_word_opt (ctx_before None pre) \<and> \<not> is_word_opt (ctx_after post)"
  by (cases post) (auto simp: whole_word_def ctx_before_def ctx_after_def is_word_opt_def)

lemma cc_token_not_Nil: "cc_token m \<Longrightarrow> m \<noteq> []"
  by (auto simp: cc_token_def)

lemma isspace_not_isdigit: "isspace c \<Longrightarrow> \<not> isdigit c"
  using isdigit_isword isspace_not_isword by blast

lemma isspace_not_is_C: "isspace c \<Longrightarrow> \<not> is_C c"
  using is_C_isword isspace_not_isword by blast

lemma word_boundary_space: "isspace w \<Longrightarrow> word_boundary p (Some w) = word_boundary p None"
  by (simp add: word_boundary_def is_word_opt_def isspace_not_isword)

lemma digits_snoc_space:
  "isspace w \<Longrightarrow> digits_then_boundary p (rest @ [w]) = digits_then_boundary p rest"
  by (induction rest arbitrary: p)
     (simp_all add: isspace_not_isdigit word_boundary_space)

lemma match_here_snoc_space:
  assumes "isspace w"
  shows "match_here prev (s @ [w]) = match_here prev s"
proof (cases s)
  case Nil
  then show ?thesis by simp
next
  case s1: (Cons a s')
  show ?thesis
  proof (cases s')
    case Nil
    then show ?thesis using s1 assms by (simp add: isspace_not_is_C)
  next
    case s2: (Cons b s'')
    show ?thesis
    proof (cases s'')
      case Nil
      then show ?thesis using s1 s2 assms by (simp add: isspace_not_isdigit)
    next
      case (Cons d rest)
      then show ?thesis using s1 s2 assms by (simp add: digits_snoc_space)
    qed
  qed
qed

lemma re_search_snoc_space:
  "isspace w \<Longrightarrow> re_search prev (s @ [w]) = re_search prev s"
proof (induction s arbitrary: prev)
  case Nil
  then show ?case by simp
next
  case (Cons c cs)
  then show ?case
    using match_here_snoc_space[of w prev "c # cs"] by (simp split: option.splits)
qed

lemma re_search_append_space:
  "\<forall>c\<in>set b. isspace c \<Longrightarrow> re_search prev (s @ b) = re_search prev s"
proof (induction b rule: rev_induct)
  case Nil
  then show ?case by simp
next
  case (snoc x xs)
  then show ?case using re_search_snoc_space[of x prev "s @ xs"] by simp
qed

lemma match_here_prev_cong:
  "is_word_opt p = is_word_opt q \<Longrightarrow> match_here p s = match_here q s"
  by (cases "(p, s)" rule: match_here.cases) (simp_all add: word_boundary_def)

lemma re_search_prev_cong:
  "is_word_opt p = is_word_opt q \<Longrightarrow> re_search p s = re_search q s"
  by (cases s) (simp_all add: match_here_prev_cong[of p q])

lemma match_here_space_None: "isspace w \<Longrightarrow> match_here prev (w # cs) = None"
  by (cases "(prev, w # cs)" rule: match_here.cases) (auto simp: isspace_not_is_C)

lemma re_search_space_append:
  "\<forall>c\<in>set a. isspace c \<Longrightarrow> re_search None (a @ s) = re_search None s"
proof (induction a)
  case Nil
  then show ?case by simp
next
  case (Cons w a)
  then have w: "isspace w" by simp
  have "re_search None (w # a @ s) = re_search (Some w) (a @ s)"
    using match_here_space_None[OF w] by simp
  also have "\<dots> = re_search None (a @ s)"
    using w by (intro re_search_prev_cong) (simp add: is_word_opt_def isspace_not_isword)
  finally show ?case using Cons by simp
qed

lemma re_search_strip: "re_search None (strip s) = re_search None s"
proof -
  obtain a b where "s = a @ strip s @ b" "\<forall>c\<in>set a. isspace c" "\<forall>c\<in>set b. isspace c"
    using strip_decomp by blast
  then show ?thesis
    by (metis re_search_space_append re_search_append_space)
qed

lemma extract_cc_number_Some:
  "extract_cc_number (Some s) = (case re_search None s of Some m \<Rightarrow> upper m | None \<Rightarrow> [])"
  by (simp add: extract_cc_number_def re_search_strip)

lemma upper_Nil_iff [simp]: "upper m = [] \<longleftrightarrow> m = []"
  by (simp add: upper_def)

lemma extract_empty_iff:
  "extract_cc_number (Some s) = [] \<longleftrightarrow>
     \<not> (\<exists>pre m post. s = pre @ m @ post \<and> cc_token m \<and> whole_word pre post)"
proof (cases "re_search None s")
  case None
  then have "\<not> (\<exists>pre m post. s = pre @ m @ post \<and> cc_token m \<and> whole_word pre post)"
    using re_search_None[OF None] by (auto simp: whole_word_ctx)
  then show ?thesis using None by (simp add: extract_cc_number_Some)
next
  case (Some m)
  from re_search_Some[OF Some] obtain pre post where
    "s = pre @ m @ post" "cc_token m" "whole_word pre post"
    by (auto simp: whole_word_ctx)
  then show ?thesis using Some cc_token_not_Nil
    by (auto simp: extract_cc_number_Some)
qed

lemma extract_nonempty:
  assumes "extract_cc_number (Some s) \<noteq> []"
  shows "\<exists>pre m post. s = pre @ m @ post \<and> cc_token m \<and> whole_word pre post
           \<and> extract_cc_number (Some s) = upper m
           \<and> (\<forall>pre' m' post'. s = pre' @ m' @ post' \<and> cc_token m' \<and> whole_word pre' post'
                 \<longrightarrow> length pre \<le> length pre')"
proof (cases "re_search None s")
  case None
  with assms show ?thesis by (simp add: extract_cc_number_Some)
next
  case (Some m)
  from re_search_Some[OF Some] obtain pre post where p:
    "s = pre @ m @ post" "cc_token m" "whole_word pre post"
    "\<forall>pre' m' post'. s = pre' @ m' @ post' \<and> cc_token m' \<and> whole_word pre' post'
        \<longrightarrow> length pre \<le> length pre'"
    unfolding whole_word_ctx by blast
  moreover have "extract_cc_number (Some s) = upper m"
    using Some by (simp add: extract_cc_number_Some)
  ultimately show ?thesis by blast
qed

text \<open>Unfolding rules that evaluate the model on a concrete cell.\<close>

lemmas cc_eval =
  extract_cc_number_def pick_cost_center_def strip_def lstrip_def rstrip_def isspace_def
  upper_def upper_char_def is_C_def isdigit_def isword_def isalpha_def word_boundary_def
  is_word_opt_def

lemmas fte_eval =
  parse_fte_def strip_def lstrip_def rstrip_def isspace_def replace_def keep_numeric_def
  isdigit_def py_float_def float_unsigned_def digits_value_def digit_value_def and_then_def

lemma py_float_Nil: "py_float [] = Inl ValueError"
  by (simp add: py_float_def)


subsection \<open>Worker names\<close>

text \<open>
  Claim C3. For every Worker cell: a missing or empty cell gives both names empty. A text
  with a comma gives as LastName the first trimmed non-empty comma-separated part and as
  FirstName the first whitespace token of the second such part, each empty when there is
  no such part. A text without a comma gives both names empty for no token, the token
  as FirstName and an empty LastName for one token, and the first and the last token
  for two or more. The four examples of the specification are instances.
\<close>

theorem split_worker_name_spec:
  "split_worker_name None = Inr ([], [])
   \<and> split_worker_name (Some []) = Inr ([], [])
   \<and> (CHR '','' \<in> set s \<longrightarrow>
        split_worker_name (Some s) =
          Inr (case comma_parts s of
                 [] \<Rightarrow> ([], [])
               | [l] \<Rightarrow> ([], l)
               | l # p # _ \<Rightarrow> (first_token p, l)))
   \<and> (CHR '','' \<notin> set s \<longrightarrow>
        split_worker_name (Some s) =
          Inr (case split_ws s of
                 [] \<Rightarrow> ([], [])
               | [t] \<Rightarrow> (t, [])
               | t # ts \<Rightarrow> (t, last ts)))
   \<and> split_worker_name (Some ''Smith, John Allen'') = Inr (''John'', ''Smith'')
   \<and> split_worker_name (Some ''John Allen Smith'') = Inr (''John'', ''Smith'')
   \<and> split_worker_name (Some ''Smith'') = Inr (''Smith'', [])"
proof -
  have none: "split_worker_name None = Inr ([], [])"
    by (simp add: split_worker_name_def)
  have empty: "split_worker_name (Some []) = Inr ([], [])"
    by (simp add: split_worker_name_def strip_def lstrip_def rstrip_def)
  have e1: "split_worker_name (Some ''Smith, John Allen'') = Inr (''John'', ''Smith'')"
    by (simp add: split_worker_name_def strip_def lstrip_def rstrip_def isspace_def
        and_then_def getitem_def split_ws.simps)
  have e2: "split_worker_name (Some ''John Allen Smith'') = Inr (''John'', ''Smith'')"
    by (simp add: split_worker_name_def strip_def lstrip_def rstrip_def isspace_def
        and_then_def getitem_def split_ws.simps)
  have e3: "split_worker_name (Some ''Smith'') = Inr (''Smith'', [])"
    by (simp add: split_worker_name_def strip_def lstrip_def rstrip_def isspace_def
        and_then_def getitem_def split_ws.simps)
  show ?thesis
    using none empty e1 e2 e3 by (simp add: split_worker_name_Some)
qed

theorem split_worker_name_spec_witness:
  "CHR '','' \<in> set ''Doe ,  Jane  Q, Jr''
   \<and> split_worker_name (Some ''Doe ,  Jane  Q, Jr'') = Inr (''Jane'', ''Doe'')
   \<and> CHR '','' \<notin> set '' Mary Ann  Lee ''
   \<and> split_worker_name (Some '' Mary Ann  Lee '') = Inr (''Mary'', ''Lee'')"
  using split_worker_name_spec[of "''Doe ,  Jane  Q, Jr''"]
    split_worker_name_spec[of "'' Mary Ann  Lee ''"]
  by (simp add: comma_parts_def first_token_def strip_def lstrip_def rstrip_def isspace_def
      split_ws.simps)

lemma split_ws_tokens_nonempty: "split_ws p = t # ts \<Longrightarrow> t \<noteq> []"
  by (subst (asm) split_ws.simps) (auto split: list.splits)

lemma worker_eval_comma_john_smith:
  "split_worker_name (Some '', John, Smith'') = Inr (''Smith'', ''John'')"
  by (simp add: split_worker_name_def strip_def lstrip_def rstrip_def isspace_def
      and_then_def getitem_def split_ws.simps)

text \<open>
  Claim C9, as stated, fails in its last part. The text \<^verbatim>\<open>, John, Smith\<close> has an empty
  first comma segment, yet FirstName is not empty: the blank segment is dropped, the
  first non-blank segment \<^verbatim>\<open>John\<close> becomes LastName and the next one gives FirstName
  \<^verbatim>\<open>Smith\<close>.
\<close>

theorem empty_first_segment_counterexample:
  "hd (split_on (CHR '','') '', John, Smith'') = []
   \<and> split_worker_name (Some '', John, Smith'') = Inr (''Smith'', ''John'')"
  using worker_eval_comma_john_smith by simp

text \<open>
  Claim C9, amended. The name split raises on no cell: every unguarded subscript of the
  source is in range. For a text with a comma, blank segments are dropped before the
  names are taken: when every segment is blank both names are empty; otherwise the
  first non-blank segment is LastName, whether or not the first segment is blank, and
  FirstName is empty when no further non-blank segment follows (as for \<^verbatim>\<open>, John\<close>),
  and the first whitespace token of the next non-blank segment, which is not empty,
  when one follows (as for \<^verbatim>\<open>, John, Smith\<close>).
\<close>

theorem split_worker_name_blank_segments:
  "(\<exists>first last. split_worker_name worker_cell = Inr (first, last))
   \<and> (CHR '','' \<in> set s \<and> (\<forall>p\<in>set (split_on (CHR '','') s). strip p = []) \<longrightarrow>
        split_worker_name (Some s) = Inr ([], []))
   \<and> (CHR '','' \<in> set s \<and> comma_parts s = [l] \<longrightarrow>
        split_worker_name (Some s) = Inr ([], l))
   \<and> (CHR '','' \<in> set s \<and> comma_parts s = l # p # others \<longrightarrow>
        split_worker_name (Some s) = Inr (first_token p, l) \<and> first_token p \<noteq> [])
   \<and> split_worker_name (Some '','') = Inr ([], [])
   \<and> split_worker_name (Some '' , ,  '') = Inr ([], [])
   \<and> split_worker_name (Some '', John'') = Inr ([], ''John'')
   \<and> split_worker_name (Some '', John, Smith'') = Inr (''Smith'', ''John'')"
proof -
  have total: "\<exists>first last. split_worker_name worker_cell = Inr (first, last)"
  proof (cases worker_cell)
    case None
    then show ?thesis by (simp add: split_worker_name_def)
  next
    case (Some t)
    obtain names where "split_worker_name (Some t) = Inr names"
      using split_worker_name_Some[of t] by simp
    then show ?thesis using Some by (cases names) simp
  qed
  have blank: "split_worker_name (Some s) = Inr ([], [])"
    if "CHR '','' \<in> set s" "\<forall>p\<in>set (split_on (CHR '','') s). strip p = []"
  proof -
    have "comma_parts s = []"
      using that(2) by (auto simp: comma_parts_def filter_empty_conv)
    then show ?thesis using that(1) by (simp add: split_worker_name_Some)
  qed
  have one: "split_worker_name (Some s) = Inr ([], l)"
    if "CHR '','' \<in> set s" "comma_parts s = [l]"
    using that by (simp add: split_worker_name_Some)
  have two: "split_worker_name (Some s) = Inr (first_token p, l) \<and> first_token p \<noteq> []"
    if "CHR '','' \<in> set s" "comma_parts s = l # p # others"
  proof -
    have "p \<in> set (comma_parts s)" using that(2) by simp
    then have "split_ws p \<noteq> []" by (rule comma_part_tokens)
    then obtain t ts where t: "split_ws p = t # ts" by (cases "split_ws p") auto
    then have "first_token p \<noteq> []"
      using split_ws_tokens_nonempty[OF t] by (simp add: first_token_def)
    then show ?thesis using that by (simp add: split_worker_name_Some)
  qed
  have e1: "split_worker_name (Some '','') = Inr ([], [])"
    by (simp add: split_worker_name_def strip_def lstrip_def rstrip_def isspace_def
        and_then_def getitem_def split_ws.simps)
  have e2: "split_worker_name (Some '' , ,  '') = Inr ([], [])"
    by (simp add: split_worker_name_def strip_def lstrip_def rstrip_def isspace_def
        and_then_def getitem_def split_ws.simps)
  have e3: "split_worker_name (Some '', John'') = Inr ([], ''John'')"
    by (simp add: split_worker_name_def strip_def lstrip_def rstrip_def isspace_def
        and_then_def getitem_def split_ws.simps)
  show ?thesis
    using total blank one two e1 e2 e3 worker_eval_comma_john_smith by blast
qed

theorem split_worker_name_blank_segments_witness:
  "CHR '','' \<in> set '' , ,  ''
   \<and> list_all (\<lambda>p. strip p = []) (split_on (CHR '','') '' , ,  '')
   \<and> split_worker_name (Some '' , ,  '') = Inr ([], [])
   \<and> CHR '','' \<in> set '', John''
   \<and> comma_parts '', John'' = [''John'']
   \<and> split_worker_name (Some '', John'') = Inr ([], ''John'')
   \<and> CHR '','' \<in> set '', John Q, Smith Lee, Jr''
   \<and> comma_parts '', John Q, Smith Lee, Jr'' = [''John Q'', ''Smith Lee'', ''Jr'']
   \<and> split_worker_name (Some '', John Q, Smith Lee, Jr'') = Inr (''Smith'', ''John Q'')"
proof -
  have a: "CHR '','' \<in> set '' , ,  ''" "CHR '','' \<in> set '', John''"
    "CHR '','' \<in> set '', John Q, Smith Lee, Jr''"
    by simp_all
  have b: "\<forall>p\<in>set (split_on (CHR '','') '' , ,  ''). strip p = []"
    by (simp add: strip_def lstrip_def rstrip_def isspace_def)
  have c: "comma_parts '', John'' = [''John'']"
    by (simp add: comma_parts_def strip_def lstrip_def rstrip_def isspace_def)
  have d: "comma_parts '', John Q, Smith Lee, Jr'' = [''John Q'', ''Smith Lee'', ''Jr'']"
    by (simp add: comma_parts_def strip_def lstrip_def rstrip_def isspace_def)
  have f: "first_token ''Smith Lee'' = ''Smith''"
    by (simp add: first_token_def split_ws.simps isspace_def)
  from split_worker_name_blank_segments[of _ "'' , ,  ''"] a(1) b
  have r1: "split_worker_name (Some '' , ,  '') = Inr ([], [])" by blast
  from split_worker_name_blank_segments[of _ "'', John''" "''John''"] a(2) c
  have r2: "split_worker_name (Some '', John'') = Inr ([], ''John'')" by blast
  from split_worker_name_blank_segments[of _ "'', John Q, Smith Lee, Jr''" "''John Q''" "''Smith Lee''" "[''Jr'']"]
    a(3) d
  have r3: "split_worker_name (Some '', John Q, Smith Lee, Jr'')
              = Inr (first_token ''Smith Lee'', ''John Q'')" by blast
  show ?thesis
    using a b c d r1 r2 r3 f by (simp add: list_all_iff)
qed

subsection \<open>Cost center codes\<close>

text \<open>
  Claim C2, as stated, fails. With the allocation-level cell \<^verbatim>\<open>XCC123\<close> and no
  organization-level cell, the case-insensitive pattern CC followed by digits matches
  \<^verbatim>\<open>CC123\<close>, while the derived CostCenter is empty: the pattern of the source carries
  \<^verbatim>\<open>\b\<close> on both sides.
\<close>

theorem cost_center_any_match_counterexample:
  "spec_cost_center (Some ''XCC123'') None = ''CC123''
   \<and> pick_cost_center (Some ''Cost Center.1'') (Some ''Cost Center'')
        (map_of [(''Cost Center.1'', ''XCC123'')]) = []"
  by (simp add: spec_cost_center_def cell_text_def cc_eval)

text \<open>
  Claim C2, amended. For every row the derived CostCenter is the extraction from the
  allocation-level cell when that is not empty, otherwise the extraction from the
  organization-level cell; an absent column extracts as empty. The extraction from a
  missing cell is empty. The extraction from a cell with text \<open>s\<close> is empty exactly when
  \<open>s\<close> holds no occurrence of CC (in either case) followed by one or more digits that
  stands as a whole word; otherwise it is the leftmost such occurrence, upper-cased.
  A cell \<^verbatim>\<open>... CC0075 ...\<close> yields \<^verbatim>\<open>CC0075\<close>.
\<close>

theorem cost_center_whole_word_match:
  "pick_cost_center (Some a) (Some b) r =
     (if extract_cc_number (r a) \<noteq> [] then extract_cc_number (r a) else extract_cc_number (r b))
   \<and> pick_cost_center (Some a) None r = extract_cc_number (r a)
   \<and> pick_cost_center None (Some b) r = extract_cc_number (r b)
   \<and> extract_cc_number None = []
   \<and> (extract_cc_number (Some s) = [] \<longleftrightarrow>
        \<not> (\<exists>pre m post. s = pre @ m @ post \<and> cc_token m \<and> whole_word pre post))
   \<and> (extract_cc_number (Some s) \<noteq> [] \<longrightarrow>
        (\<exists>pre m post. s = pre @ m @ post \<and> cc_token m \<and> whole_word pre post
           \<and> extract_cc_number (Some s) = upper m
           \<and> (\<forall>pre' m' post'. s = pre' @ m' @ post' \<and> cc_token m' \<and> whole_word pre' post'
                 \<longrightarrow> length pre \<le> length pre')))
   \<and> extract_cc_number (Some ''Biology Dept CC0075 Main Campus'') = ''CC0075''
   \<and> extract_cc_number (Some ''no code here'') = []"
proof -
  have p1: "pick_cost_center (Some a) (Some b) r =
     (if extract_cc_number (r a) \<noteq> [] then extract_cc_number (r a) else extract_cc_number (r b))"
    by (simp add: pick_cost_center_def Let_def)
  have p2: "pick_cost_center (Some a) None r = extract_cc_number (r a)"
    by (simp add: pick_cost_center_def Let_def)
  have p3: "pick_cost_center None (Some b) r = extract_cc_number (r b)"
    by (simp add: pick_cost_center_def Let_def)
  have n: "extract_cc_number None = []"
    by (simp add: extract_cc_number_def)
  have e1: "extract_cc_number (Some ''Biology Dept CC0075 Main Campus'') = ''CC0075''"
    by (simp add: cc_eval)
  have e2: "extract_cc_number (Some ''no code here'') = []"
    by (simp add: cc_eval)
  show ?thesis
    using p1 p2 p3 n e1 e2 extract_empty_iff[of s] extract_nonempty[of s] by blast
qed

theorem cost_center_whole_word_match_witness:
  "extract_cc_number (Some ''x cc12 CC34'') \<noteq> []
   \<and> (\<exists>pre m post. ''x cc12 CC34'' = pre @ m @ post \<and> cc_token m \<and> whole_word pre post
         \<and> extract_cc_number (Some ''x cc12 CC34'') = upper m
         \<and> (\<forall>pre' m' post'. ''x cc12 CC34'' = pre' @ m' @ post' \<and> cc_token m' \<and> whole_word pre' post'
               \<longrightarrow> length pre \<le> length pre'))
   \<and> extract_cc_number (Some ''x cc12 CC34'') = ''CC12''"
proof -
  have v: "extract_cc_number (Some ''x cc12 CC34'') = ''CC12''"
    by (simp add: cc_eval)
  then have h: "extract_cc_number (Some ''x cc12 CC34'') \<noteq> []" by simp
  show ?thesis
    using h v cost_center_whole_word_match[where s = "''x cc12 CC34''"] by blast
qed



subsection \<open>FTE and Distribution Percent\<close>

text \<open>
  Claim C1 does not hold of the code. An FTE cell whose text keeps a character after
  the substitution but is not a number makes \<^verbatim>\<open>float\<close> raise \<^verbatim>\<open>ValueError\<close>, which
  nothing catches: the cell \<^verbatim>\<open>-\<close>, the cell \<^verbatim>\<open>1.2.3\<close>, and the cell \<^verbatim>\<open>1e-05\<close> (the
  letter is removed and \<^verbatim>\<open>1-05\<close> remains). A frame with one such row makes the whole
  derivation raise. A cell of which nothing remains, such as \<^verbatim>\<open>n/a\<close>, is blank as the
  claim says.
\<close>

theorem parse_fte_raises_on_dash:
  "parse_fte (Some ''-'') = Inl ValueError
   \<and> parse_fte (Some ''1.2.3'') = Inl ValueError
   \<and> parse_fte (Some ''1e-05'') = Inl ValueError
   \<and> parse_fte (Some ''n/a'') = Inr None
   \<and> derive_rows parse_date parse_num
        \<lparr>columns = required @ [''Cost Center''],
         rows = [map_of [(''Worker'', ''Doe, Jane''), (''Cost Center'', ''CC0075''), (''FTE'', ''-'')]]\<rparr>
       = Inl ValueError"
proof -
  have a: "parse_fte (Some ''-'') = Inl ValueError" by (simp add: fte_eval)
  have b: "parse_fte (Some ''1.2.3'') = Inl ValueError" by (simp add: fte_eval)
  have c: "parse_fte (Some ''1e-05'') = Inl ValueError" by (simp add: fte_eval)
  have d: "parse_fte (Some ''n/a'') = Inr None" by (simp add: fte_eval)
  have w: "split_worker_name (Some ''Doe, Jane'') = Inr (''Jane'', ''Doe'')"
    by (simp add: split_worker_name_def strip_def lstrip_def rstrip_def isspace_def
        and_then_def getitem_def split_ws.simps)
  have e: "derive_rows parse_date parse_num
        \<lparr>columns = required @ [''Cost Center''],
         rows = [map_of [(''Worker'', ''Doe, Jane''), (''Cost Center'', ''CC0075''), (''FTE'', ''-'')]]\<rparr>
       = Inl ValueError"
    by (simp add: derive_rows_def derive_row_def required_def w a and_then_def)
  show ?thesis using a b c d e by simp
qed

lemma derive_row_numbers:
  assumes "derive_row parse_date parse_num index a b r = Inr out"
  shows "parse_fte (r ''FTE'') = Inr (FTE out)
         \<and> DistributionPercent out = distribution_percent (parse_num (r ''Distribution Percent''))"
  using assms
  by (auto simp: derive_row_def and_then_def split: sum.splits)

text \<open>
  Claim C4. When the cleaned text of an FTE cell parses as the number \<open>v\<close>, the value
  \<^verbatim>\<open>_parse_fte\<close> returns is \<open>v / 100\<close> if \<open>v\<close> is greater than 1 and \<open>v\<close> itself otherwise.
  In every derived row the stored FTE is what \<^verbatim>\<open>_parse_fte\<close> returned for the FTE cell,
  and the stored Distribution Percent is blank when \<^verbatim>\<open>pd.to_numeric\<close> read no number
  and otherwise, for the number \<open>v\<close> it read, \<open>v / 100\<close> if \<open>v\<close> is greater than 1 and \<open>v\<close>
  itself otherwise. The value 1 is not divided, and a result outside the unit interval
  is kept as it is.
\<close>

theorem fraction_threshold:
  "(py_float (keep_numeric (replace (CHR ''%'') [] (strip s))) = Inr v \<longrightarrow>
      parse_fte (Some s) = Inr (Some (if 1 < v then v / 100 else v)))
   \<and> (derive_row parse_date parse_num index a b r = Inr out \<longrightarrow>
        parse_fte (r ''FTE'') = Inr (FTE out)
        \<and> DistributionPercent out =
            (case parse_num (r ''Distribution Percent'') of
               None \<Rightarrow> None
             | Some x \<Rightarrow> Some (if 1 < x then x / 100 else x)))
   \<and> distribution_percent (Some v) = Some (if 1 < v then v / 100 else v)
   \<and> distribution_percent None = None
   \<and> parse_fte (Some ''50.%'') = Inr (Some (1 / 2))
   \<and> parse_fte (Some ''100'') = Inr (Some 1)
   \<and> parse_fte (Some ''0.75'') = Inr (Some (3 / 4))
   \<and> parse_fte (Some ''1'') = Inr (Some 1)
   \<and> parse_fte (Some ''250'') = Inr (Some (5 / 2))
   \<and> parse_fte (Some ''-50'') = Inr (Some (- 50))
   \<and> distribution_percent (Some 1) = Some 1
   \<and> distribution_percent (Some 250) = Some (5 / 2)"
proof -
  have g: "py_float (keep_numeric (replace (CHR ''%'') [] (strip s))) = Inr v \<longrightarrow>
      parse_fte (Some s) = Inr (Some (if 1 < v then v / 100 else v))"
  proof
    assume h: "py_float (keep_numeric (replace (CHR ''%'') [] (strip s))) = Inr v"
    then have "keep_numeric (replace (CHR ''%'') [] (strip s)) \<noteq> []"
      using py_float_Nil by auto
    then show "parse_fte (Some s) = Inr (Some (if 1 < v then v / 100 else v))"
      using h by (simp add: parse_fte_def and_then_def)
  qed
  have st: "derive_row parse_date parse_num index a b r = Inr out \<longrightarrow>
        parse_fte (r ''FTE'') = Inr (FTE out)
        \<and> DistributionPercent out =
            (case parse_num (r ''Distribution Percent'') of
               None \<Rightarrow> None
             | Some x \<Rightarrow> Some (if 1 < x then x / 100 else x))"
    using derive_row_numbers[of parse_date parse_num index a b r out]
    by (simp add: distribution_percent_def)
  have d: "distribution_percent (Some v) = Some (if 1 < v then v / 100 else v)"
    "distribution_percent None = None"
    "distribution_percent (Some 1) = Some 1"
    "distribution_percent (Some 250) = Some (5 / 2)"
    by (simp_all add: distribution_percent_def)
  have e1: "parse_fte (Some ''50.%'') = Inr (Some (1 / 2))" by (simp add: fte_eval)
  have e2: "parse_fte (Some ''100'') = Inr (Some 1)" by (simp add: fte_eval)
  have e3: "parse_fte (Some ''0.75'') = Inr (Some (3 / 4))" by (simp add: fte_eval)
  have e4: "parse_fte (Some ''1'') = Inr (Some 1)" by (simp add: fte_eval)
  have e5: "parse_fte (Some ''250'') = Inr (Some (5 / 2))" by (simp add: fte_eval)
  have e6: "parse_fte (Some ''-50'') = Inr (Some (- 50))" by (simp add: fte_eval)
  show ?thesis using g st d e1 e2 e3 e4 e5 e6 by simp
qed

theorem fraction_threshold_witness:
  "py_float (keep_numeric (replace (CHR ''%'') [] (strip '' 12.5 % ''))) = Inr (25 / 2)
   \<and> parse_fte (Some '' 12.5 % '') = Inr (Some (1 / 8))
   \<and> derive_row Map.empty (map_of [(Some ''75'', 75), (Some ''1'', 1)]) sample_columns None
        (Some ''Cost Center'') sample_percent_row = Inr sample_percent_out
   \<and> FTE sample_percent_out = Some (1 / 8)
   \<and> DistributionPercent sample_percent_out = Some (3 / 4)"
proof -
  have h: "py_float (keep_numeric (replace (CHR ''%'') [] (strip '' 12.5 % ''))) = Inr (25 / 2)"
    by (simp add: fte_eval)
  have w: "split_worker_name (Some ''Doe, Jane'') = Inr (''Jane'', ''Doe'')"
    by (simp add: split_worker_name_def strip_def lstrip_def rstrip_def isspace_def
        and_then_def getitem_def split_ws.simps)
  have c: "extract_cc_number (Some ''CC0075 Biology'') = ''CC0075''"
    by (simp add: cc_eval)
  have f: "parse_fte (Some '' 12.5 % '') = Inr (Some (1 / 8))"
    using h fraction_threshold[of "'' 12.5 % ''" "25 / 2"] by simp
  have dr: "derive_row Map.empty (map_of [(Some ''75'', 75), (Some ''1'', 1)]) sample_columns None
        (Some ''Cost Center'') sample_percent_row = Inr sample_percent_out"
    by (simp add: derive_row_def sample_percent_row_def sample_percent_out_def sample_columns_def
        required_def pick_cost_center_def extract_budget_number_def format_mmddyyyy_def
        distribution_percent_def cell_text_def and_then_def w c f)
  from fraction_threshold[of _ _ Map.empty "map_of [(Some ''75'', 75), (Some ''1'', 1)]"
      sample_columns None "Some ''Cost Center''" sample_percent_row sample_percent_out] dr
  have "DistributionPercent sample_percent_out =
            (case map_of [(Some ''75'', 75::rat), (Some ''1'', 1)] (sample_percent_row ''Distribution Percent'') of
               None \<Rightarrow> None
             | Some x \<Rightarrow> Some (if 1 < x then x / 100 else x))"
    and "parse_fte (sample_percent_row ''FTE'') = Inr (FTE sample_percent_out)"
    by blast+
  then have "DistributionPercent sample_percent_out = Some (3 / 4)"
    and "FTE sample_percent_out = Some (1 / 8)"
    using f by (simp_all add: sample_percent_row_def)
  then show ?thesis using h f dr by simp
qed

subsection \<open>Filtering and sorting\<close>

lemma ReadIn_Some:
  assumes "snd (ReadInCostingAllocationsFile parse_date parse_num rd f) = Inr (Some out)"
  shows "\<exists>derived. derive_rows parse_date parse_num (dropna_all (rd f)) = Inr derived
           \<and> out = sort_key sort_key_of (filter has_identity derived)"
  using assms
  by (auto simp: ReadInCostingAllocationsFile_def Let_def and_then_def
      split: if_splits sum.splits)

lemma sample_derive_rows:
  "derive_rows Map.empty Map.empty (dropna_all sample_frame) = Inr sample_derived"
proof -
  have d: "dropna_all sample_frame = sample_frame"
    by (simp add: dropna_all_def sample_frame_def required_def)
  have w1: "split_worker_name (Some ''Smith, Al'') = Inr (''Al'', ''Smith'')"
    and w2: "split_worker_name None = Inr ([], [])"
    and w3: "split_worker_name (Some ''Bo Jones'') = Inr (''Bo'', ''Jones'')"
    and w4: "split_worker_name (Some ''Smith, Cy'') = Inr (''Cy'', ''Smith'')"
    by (simp_all add: split_worker_name_def strip_def lstrip_def rstrip_def isspace_def
        and_then_def getitem_def split_ws.simps)
  have c1: "extract_cc_number (Some ''Chem CC2'') = ''CC2''"
    and c2: "extract_cc_number None = []"
    and c3: "extract_cc_number (Some ''CC10 Physics'') = ''CC10''"
    and c4: "extract_cc_number (Some ''cc2'') = ''CC2''"
    by (simp_all add: cc_eval)
  have f1: "parse_fte (Some ''50'') = Inr (Some (1 / 2))"
    and f2: "parse_fte None = Inr None"
    and f3: "parse_fte (Some ''1'') = Inr (Some 1)"
    by (simp_all add: fte_eval)
  have t: "cell_text (Some ''Dean'') = ''Dean''" "cell_text None = []"
    by (simp_all add: cell_text_def strip_def lstrip_def rstrip_def isspace_def)
  show ?thesis
    unfolding d
    by (simp add: derive_rows_def derive_row_def sample_frame_def sample_derived_def required_def
        pick_cost_center_def extract_budget_number_def format_mmddyyyy_def
        distribution_percent_def and_then_def w1 w2 w3 w4 c1 c2 c3 c4 f1 f2 f3 t)
qed

lemma sample_ReadIn:
  "snd (ReadInCostingAllocationsFile Map.empty Map.empty (\<lambda>f. sample_frame) ''in.xlsx'')
     = Inr (Some sample_output)"
proof -
  have cols: "columns (dropna_all sample_frame) = required @ [''Cost Center'']"
    by (simp add: dropna_all_def sample_frame_def)
  have srt: "sort_key sort_key_of (filter has_identity sample_derived) = sample_output"
    by (simp add: sample_derived_def sample_output_def has_identity_def sort_key_of_def)
  show ?thesis
    by (simp add: ReadInCostingAllocationsFile_def Let_def cols required_def
        sample_derive_rows and_then_def srt)
qed

text \<open>
  Claim C5. Whenever the transformer returns an output frame, every row of it has a
  non-empty CostCenter, FirstName or LastName, and the output holds exactly the derived
  rows with that property, each as often as it was derived: a derived row with the three
  fields empty is left out whatever its other fields hold, and every other derived row
  is kept.
\<close>

theorem output_rows_identified:
  "snd (ReadInCostingAllocationsFile parse_date parse_num rd f) = Inr (Some out) \<longrightarrow>
     (\<forall>r\<in>set out. CostCenter r \<noteq> [] \<or> FirstName r \<noteq> [] \<or> LastName r \<noteq> [])
     \<and> (\<exists>derived. derive_rows parse_date parse_num (dropna_all (rd f)) = Inr derived
           \<and> mset out =
               filter_mset (\<lambda>r. CostCenter r \<noteq> [] \<or> FirstName r \<noteq> [] \<or> LastName r \<noteq> [])
                 (mset derived))"
proof
  assume h: "snd (ReadInCostingAllocationsFile parse_date parse_num rd f) = Inr (Some out)"
  from ReadIn_Some[OF h] obtain derived where
    d: "derive_rows parse_date parse_num (dropna_all (rd f)) = Inr derived"
    and o: "out = sort_key sort_key_of (filter has_identity derived)"
    by blast
  have p: "has_identity = (\<lambda>r. CostCenter r \<noteq> [] \<or> FirstName r \<noteq> [] \<or> LastName r \<noteq> [])"
    by (auto simp: has_identity_def fun_eq_iff)
  have "mset out = filter_mset has_identity (mset derived)"
    using o by simp
  moreover have "\<forall>r\<in>set out. has_identity r"
    using o by simp
  ultimately show "(\<forall>r\<in>set out. CostCenter r \<noteq> [] \<or> FirstName r \<noteq> [] \<or> LastName r \<noteq> [])
     \<and> (\<exists>derived. derive_rows parse_date parse_num (dropna_all (rd f)) = Inr derived
           \<and> mset out =
               filter_mset (\<lambda>r. CostCenter r \<noteq> [] \<or> FirstName r \<noteq> [] \<or> LastName r \<noteq> [])
                 (mset derived))"
    using d unfolding p by blast
qed

theorem output_rows_identified_witness:
  "snd (ReadInCostingAllocationsFile Map.empty Map.empty (\<lambda>f. sample_frame) ''in.xlsx'')
     = Inr (Some sample_output)
   \<and> list_all (\<lambda>r. CostCenter r \<noteq> [] \<or> FirstName r \<noteq> [] \<or> LastName r \<noteq> []) sample_output
   \<and> mset sample_output =
       filter_mset (\<lambda>r. CostCenter r \<noteq> [] \<or> FirstName r \<noteq> [] \<or> LastName r \<noteq> [])
         (mset sample_derived)"
proof -
  note h = sample_ReadIn
  from output_rows_identified[of Map.empty Map.empty "\<lambda>f. sample_frame" "''in.xlsx''" sample_output] h
  have a: "\<forall>r\<in>set sample_output. CostCenter r \<noteq> [] \<or> FirstName r \<noteq> [] \<or> LastName r \<noteq> []"
    and b: "\<exists>derived. derive_rows Map.empty Map.empty (dropna_all sample_frame) = Inr derived
           \<and> mset sample_output =
               filter_mset (\<lambda>r. CostCenter r \<noteq> [] \<or> FirstName r \<noteq> [] \<or> LastName r \<noteq> [])
                 (mset derived)"
    by blast+
  from b have "mset sample_output =
       filter_mset (\<lambda>r. CostCenter r \<noteq> [] \<or> FirstName r \<noteq> [] \<or> LastName r \<noteq> [])
         (mset sample_derived)"
    by (simp add: sample_derive_rows)
  then show ?thesis using h a by (simp add: list_all_iff)
qed

text \<open>
  Claim C6. Whenever the transformer returns an output frame, its rows are in ascending
  order of the pair (CostCenter, LastName), compared lexicographically, and for every
  such pair the output rows that carry it are the derived, identified rows that carry
  it, in the order in which they were derived: the order of the input rows.
\<close>

theorem output_sorted_and_stable:
  "snd (ReadInCostingAllocationsFile parse_date parse_num rd f) = Inr (Some out) \<longrightarrow>
     sorted (map (\<lambda>r. (CostCenter r, LastName r)) out)
     \<and> (\<exists>derived. derive_rows parse_date parse_num (dropna_all (rd f)) = Inr derived
           \<and> (\<forall>k. filter (\<lambda>r. (CostCenter r, LastName r) = k) out =
                    filter (\<lambda>r. (CostCenter r, LastName r) = k) (filter has_identity derived)))"
proof
  assume h: "snd (ReadInCostingAllocationsFile parse_date parse_num rd f) = Inr (Some out)"
  from ReadIn_Some[OF h] obtain derived where
    d: "derive_rows parse_date parse_num (dropna_all (rd f)) = Inr derived"
    and o: "out = sort_key sort_key_of (filter has_identity derived)"
    by blast
  have k: "sort_key_of = (\<lambda>r. (CostCenter r, LastName r))"
    by (simp add: sort_key_of_def fun_eq_iff)
  have s: "sorted (map sort_key_of out)"
    unfolding o by (rule sorted_sort_key)
  have st: "\<forall>k. filter (\<lambda>r. sort_key_of r = k) out =
                filter (\<lambda>r. sort_key_of r = k) (filter has_identity derived)"
    unfolding o by (simp add: sort_key_stable)
  show "sorted (map (\<lambda>r. (CostCenter r, LastName r)) out)
     \<and> (\<exists>derived. derive_rows parse_date parse_num (dropna_all (rd f)) = Inr derived
           \<and> (\<forall>k. filter (\<lambda>r. (CostCenter r, LastName r) = k) out =
                    filter (\<lambda>r. (CostCenter r, LastName r) = k) (filter has_identity derived)))"
    using s st d unfolding k by blast
qed

theorem output_sorted_and_stable_witness:
  "snd (ReadInCostingAllocationsFile Map.empty Map.empty (\<lambda>f. sample_frame) ''in.xlsx'')
     = Inr (Some sample_output)
   \<and> sorted (map (\<lambda>r. (CostCenter r, LastName r)) sample_output)
   \<and> map (\<lambda>r. (CostCenter r, LastName r, FirstName r)) sample_output
       = [(''CC10'', ''Jones'', ''Bo''), (''CC2'', ''Smith'', ''Al''), (''CC2'', ''Smith'', ''Cy'')]"
proof -
  note h = sample_ReadIn
  from output_sorted_and_stable[of Map.empty Map.empty "\<lambda>f. sample_frame" "''in.xlsx''" sample_output] h
  have "sorted (map (\<lambda>r. (CostCenter r, LastName r)) sample_output)" by blast
  moreover have "map (\<lambda>r. (CostCenter r, LastName r, FirstName r)) sample_output
       = [(''CC10'', ''Jones'', ''Bo''), (''CC2'', ''Smith'', ''Al''), (''CC2'', ''Smith'', ''Cy'')]"
    by (simp add: sample_output_def sample_derived_def)
  ultimately show ?thesis using h by simp
qed

subsection \<open>The output file name\<close>

lemma replace_char_map: "replace c [u] s = map (\<lambda>x. if x = c then u else x) s"
  by (induction s) (simp_all add: replace_def)

lemma replace_chain_sanitize:
  "replace (CHR '':'') ''_'' (replace (CHR 0x5C) ''_'' (replace (CHR ''/'') ''_'' s)) = sanitize s"
  by (simp add: replace_char_map sanitize_def)

lemma sanitize_no_slash: "CHR ''/'' \<notin> set (sanitize s)"
  by (auto simp: sanitize_def)

lemma digit_char_mem: "k < 10 \<Longrightarrow> ''0123456789'' ! k \<in> set ''0123456789''"
  by (rule nth_mem) simp

lemma str_nat_digits: "str_nat n \<noteq> [] \<and> set (str_nat n) \<subseteq> set ''0123456789''"
proof (induction n rule: str_nat.induct)
  case (1 n)
  show ?case
  proof (cases "n < 10")
    case True
    then show ?thesis
      using digit_char_mem[of n] by (subst (1 2) str_nat.simps) simp
  next
    case False
    have "n mod 10 < 10" by simp
    then have "''0123456789'' ! (n mod 10) \<in> set ''0123456789''"
      by (rule digit_char_mem)
    then show ?thesis
      using False 1 by (subst (1 2) str_nat.simps) simp
  qed
qed

lemma zfill_hd: "s \<noteq> [] \<Longrightarrow> hd (zfill w s @ t) \<in> insert (CHR ''0'') (set s)"
  by (cases "w - length s") (auto simp: zfill_def hd_append)

lemma strftime_hd: "strftime_mdY sep d \<noteq> [] \<and> hd (strftime_mdY sep d) \<noteq> CHR ''/''"
proof -
  let ?m = "str_nat (month d)"
  have m: "?m \<noteq> []" "set ?m \<subseteq> set ''0123456789''"
    using str_nat_digits by blast+
  have "hd (zfill 2 ?m @ sep @ zfill 2 (str_nat (day d)) @ sep @ zfill 4 (str_nat (year d)))
          \<in> insert (CHR ''0'') (set ?m)"
    using zfill_hd[OF m(1)] by blast
  then have "hd (strftime_mdY sep d) \<in> set ''0123456789''"
    using m(2) by (auto simp: strftime_mdY_def)
  moreover have "strftime_mdY sep d \<noteq> []"
    using m(1) by (simp add: strftime_mdY_def zfill_def)
  ultimately show ?thesis by auto
qed

lemma path_join_relative:
  "b \<noteq> [] \<Longrightarrow> hd b \<noteq> CHR ''/'' \<Longrightarrow> path_join OUTPUT_DIR b = OUTPUT_DIR @ ''/'' @ b"
  by (simp add: path_join_def OUTPUT_DIR_def)

lemma hd_sanitize_suffix: "hd (sanitize s @ '' Costing Allocations.xlsx'') \<noteq> CHR ''/''"
proof (cases "sanitize s")
  case Nil
  then show ?thesis by simp
next
  case (Cons c cs)
  then have "c \<in> set (sanitize s)" by simp
  then have "c \<noteq> CHR ''/''" using sanitize_no_slash by metis
  then show ?thesis using Cons by simp
qed

text \<open>
  Claim C7. For every EffectiveDate text the returned path is the output directory, a
  separator, the token and the suffix \<^verbatim>\<open> Costing Allocations.xlsx\<close>, where the token
  (\<^const>\<open>spec_token\<close>) is \<^verbatim>\<open>unknowndate\<close> when the trimmed text is empty, the date as
  \<^verbatim>\<open>MM_DD_YYYY\<close> when the trimmed text parses as a date, and otherwise the trimmed text
  with each slash, backslash and colon replaced by an underscore and every other
  character unchanged. The three examples of the specification are instances.
\<close>

theorem output_file_name_token:
  "snd (CreateOutPutFileName parse_date \<lparr>EffectiveDate = d\<rparr>)
     = OUTPUT_DIR @ ''/'' @ spec_token parse_date d @ '' Costing Allocations.xlsx''
   \<and> spec_token parse_date [] = ''unknowndate''
   \<and> (parse_date ''2024-01-05'' = Some \<lparr>year = 2024, month = 1, day = 5\<rparr> \<longrightarrow>
        spec_token parse_date ''2024-01-05'' = ''01_05_2024'')
   \<and> (parse_date ''Q1/Q2'' = None \<longrightarrow> spec_token parse_date ''Q1/Q2'' = ''Q1_Q2'')"
proof -
  have path: "snd (CreateOutPutFileName parse_date \<lparr>EffectiveDate = d\<rparr>)
     = OUTPUT_DIR @ ''/'' @ spec_token parse_date d @ '' Costing Allocations.xlsx''"
  proof (cases "strip d = []")
    case True
    then show ?thesis
      by (simp add: CreateOutPutFileName_def spec_token_def path_join_def OUTPUT_DIR_def)
  next
    case False
    show ?thesis
    proof (cases "parse_date (strip d)")
      case None
      have "path_join OUTPUT_DIR (sanitize (strip d) @ '' Costing Allocations.xlsx'')
              = OUTPUT_DIR @ ''/'' @ sanitize (strip d) @ '' Costing Allocations.xlsx''"
        using hd_sanitize_suffix[of "strip d"] by (intro path_join_relative) simp_all
      then show ?thesis using False None
        by (simp add: CreateOutPutFileName_def spec_token_def replace_chain_sanitize)
    next
      case (Some dt)
      have "hd (strftime_mdY ''_'' dt @ '' Costing Allocations.xlsx'') \<noteq> CHR ''/''"
        using strftime_hd[of "''_''" dt] by (simp add: hd_append)
      then have "path_join OUTPUT_DIR (strftime_mdY ''_'' dt @ '' Costing Allocations.xlsx'')
              = OUTPUT_DIR @ ''/'' @ strftime_mdY ''_'' dt @ '' Costing Allocations.xlsx''"
        by (intro path_join_relative) simp_all
      then show ?thesis using False Some
        by (simp add: CreateOutPutFileName_def spec_token_def strftime_mdY_def)
    qed
  qed
  have u: "spec_token parse_date [] = ''unknowndate''"
    by (simp add: spec_token_def strip_def lstrip_def rstrip_def)
  have s1: "strip ''2024-01-05'' = ''2024-01-05''" and s2: "strip ''Q1/Q2'' = ''Q1/Q2''"
    by (simp_all add: strip_def lstrip_def rstrip_def isspace_def)
  have a: "parse_date ''2024-01-05'' = Some \<lparr>year = 2024, month = 1, day = 5\<rparr> \<longrightarrow>
        spec_token parse_date ''2024-01-05'' = ''01_05_2024''"
    by (simp add: spec_token_def s1 zfill_def str_nat.simps)
  have b: "parse_date ''Q1/Q2'' = None \<longrightarrow> spec_token parse_date ''Q1/Q2'' = ''Q1_Q2''"
    by (simp add: spec_token_def s2 sanitize_def)
  show ?thesis using path u a b by blast
qed

theorem output_file_name_token_witness:
  "map_of [(''2024-01-05'', \<lparr>year = 2024, month = 1, day = 5\<rparr>)] ''2024-01-05''
     = Some \<lparr>year = 2024, month = 1, day = 5\<rparr>
   \<and> map_of [(''2024-01-05'', \<lparr>year = 2024, month = 1, day = 5\<rparr>)] ''Q1/Q2'' = None
   \<and> snd (CreateOutPutFileName (map_of [(''2024-01-05'', \<lparr>year = 2024, month = 1, day = 5\<rparr>)])
          \<lparr>EffectiveDate = ''2024-01-05''\<rparr>) = ''TEMP/01_05_2024 Costing Allocations.xlsx''
   \<and> snd (CreateOutPutFileName (map_of [(''2024-01-05'', \<lparr>year = 2024, month = 1, day = 5\<rparr>)])
          \<lparr>EffectiveDate = ''Q1/Q2''\<rparr>) = ''TEMP/Q1_Q2 Costing Allocations.xlsx''"
  using output_file_name_token[of "map_of [(''2024-01-05'', \<lparr>year = 2024, month = 1, day = 5\<rparr>)]" "''2024-01-05''"]
    output_file_name_token[of "map_of [(''2024-01-05'', \<lparr>year = 2024, month = 1, day = 5\<rparr>)]" "''Q1/Q2''"]
  by (simp add: OUTPUT_DIR_def)

subsection \<open>The driver\<close>

lemma ReadIn_events:
  "list_ex is_write (fst (ReadInCostingAllocationsFile parse_date parse_num rd f)) = False"
  by (simp add: ReadInCostingAllocationsFile_def Let_def is_write_def)

lemma sample_header:
  "snd (ReadInFirst15Lines (read_header sample_world) (selection sample_world))
     = Inr \<lparr>EffectiveDate = ''Q1/Q2''\<rparr>"
  by (simp add: ReadInFirst15Lines_def sample_world_def and_then_def row_get_def
      cell_text_def strip_def lstrip_def rstrip_def isspace_def lower_def lower_char_def
      replace_def)

lemma sample_path:
  "snd (CreateOutPutFileName (to_datetime sample_world) \<lparr>EffectiveDate = ''Q1/Q2''\<rparr>)
     = ''TEMP/Q1_Q2 Costing Allocations.xlsx''"
  by (simp add: CreateOutPutFileName_def sample_world_def strip_def lstrip_def rstrip_def
      isspace_def replace_def path_join_def OUTPUT_DIR_def)

text \<open>
  Claim C8. When a file was selected, the header block was read and the output path
  computed from it exists, the run does exactly this: it asks for the file, reads the
  header, ensures the output directory, tests the path and shows the error. It reads
  no data table and writes no output. In every run that does not end with the success
  dialog (cancelled selection, existing output, structural error, or an exception)
  no output is written; a cancelled selection does nothing after the dialog.
\<close>

theorem existing_output_stops_the_run:
  "(selection w \<noteq> []
      \<and> snd (ReadInFirst15Lines (read_header w) (selection w)) = Inr header
      \<and> path_exists w (snd (CreateOutPutFileName (to_datetime w) header))
    \<longrightarrow> main w =
          ([AskOpenFile, ReadHeader (selection w), MakeDirs OUTPUT_DIR,
            PathExists (snd (CreateOutPutFileName (to_datetime w) header)),
            ShowError ''file already exists''], AlreadyExists)
        \<and> list_ex is_header_read (fst (main w))
        \<and> \<not> list_ex is_table_read (fst (main w))
        \<and> \<not> list_ex is_write (fst (main w)))
   \<and> (snd (main w) \<noteq> Done \<longrightarrow> \<not> list_ex is_write (fst (main w)))
   \<and> (selection w = [] \<longrightarrow> main w = ([AskOpenFile], Cancelled))"
proof -
  have a: "main w =
          ([AskOpenFile, ReadHeader (selection w), MakeDirs OUTPUT_DIR,
            PathExists (snd (CreateOutPutFileName (to_datetime w) header)),
            ShowError ''file already exists''], AlreadyExists)
        \<and> list_ex is_header_read (fst (main w))
        \<and> \<not> list_ex is_table_read (fst (main w))
        \<and> \<not> list_ex is_write (fst (main w))"
    if h: "selection w \<noteq> []"
      "snd (ReadInFirst15Lines (read_header w) (selection w)) = Inr header"
      "path_exists w (snd (CreateOutPutFileName (to_datetime w) header))"
  proof -
    have r: "ReadInFirst15Lines (read_header w) (selection w)
               = ([ReadHeader (selection w)], Inr header)"
      using h(2) by (simp add: ReadInFirst15Lines_def)
    have c: "fst (CreateOutPutFileName (to_datetime w) header) = [MakeDirs OUTPUT_DIR]"
      by (simp add: CreateOutPutFileName_def Let_def)
    have m: "main w =
          ([AskOpenFile, ReadHeader (selection w), MakeDirs OUTPUT_DIR,
            PathExists (snd (CreateOutPutFileName (to_datetime w) header)),
            ShowError ''file already exists''], AlreadyExists)"
      using h(1) h(3) by (simp add: main_def Let_def r case_prod_beta c)
    show ?thesis
      unfolding m by (simp add: is_header_read_def is_table_read_def is_write_def)
  qed
  have b: "\<not> list_ex is_write (fst (main w))" if nd: "snd (main w) \<noteq> Done"
  proof -
    obtain ev1 r1 where r1: "ReadInFirst15Lines (read_header w) (selection w) = (ev1, r1)"
      by (cases "ReadInFirst15Lines (read_header w) (selection w)")
    then have ev1: "ev1 = [ReadHeader (selection w)]"
      by (simp add: ReadInFirst15Lines_def)
    show ?thesis
    proof (cases "selection w = []")
      case True
      then show ?thesis by (simp add: main_def is_write_def)
    next
      case sel: False
      show ?thesis
      proof (cases r1)
        case (Inl e)
        then show ?thesis using sel r1 ev1
          by (simp add: main_def Let_def is_write_def)
      next
        case (Inr header_data)
        obtain ev2 p where c: "CreateOutPutFileName (to_datetime w) header_data = (ev2, p)"
          by (cases "CreateOutPutFileName (to_datetime w) header_data")
        then have ev2: "ev2 = [MakeDirs OUTPUT_DIR]"
          by (simp add: CreateOutPutFileName_def Let_def)
        show ?thesis
        proof (cases "path_exists w p")
          case True
          then show ?thesis using sel r1 ev1 Inr c ev2
            by (simp add: main_def Let_def is_write_def)
        next
          case ne: False
          obtain ev3 r3 where t: "ReadInCostingAllocationsFile (to_datetime w) (to_numeric w)
                            (read_excel w) (selection w) = (ev3, r3)"
            by (cases "ReadInCostingAllocationsFile (to_datetime w) (to_numeric w)
                            (read_excel w) (selection w)")
          have ev3: "\<not> list_ex is_write ev3"
            using ReadIn_events[of "to_datetime w" "to_numeric w" "read_excel w" "selection w"] t
            by simp
          have mm: "main w = (case r3 of
                       Inl e \<Rightarrow> ([AskOpenFile] @ ev1 @ ev2 @ [PathExists p] @ ev3, Raised e)
                     | Inr None \<Rightarrow> ([AskOpenFile] @ ev1 @ ev2 @ [PathExists p] @ ev3, StructuralError)
                     | Inr (Some df_out) \<Rightarrow>
                         ([AskOpenFile] @ ev1 @ ev2 @ [PathExists p] @ ev3
                            @ [WriteExcel p df_out, ShowInfo ''Done''], Done))"
            using sel r1 Inr c ne t
            by (simp add: main_def Let_def split: sum.splits option.splits)
          show ?thesis
          proof (cases r3)
            case (Inl e)
            then show ?thesis using mm ev1 ev2 ev3 by (simp add: is_write_def)
          next
            case inr: (Inr o3)
            show ?thesis
            proof (cases o3)
              case None
              then show ?thesis using mm inr ev1 ev2 ev3 by (simp add: is_write_def)
            next
              case (Some df_out)
              then have "snd (main w) = Done" using mm inr by simp
              with nd show ?thesis by simp
            qed
          qed
        qed
      qed
    qed
  qed
  have c: "selection w = [] \<longrightarrow> main w = ([AskOpenFile], Cancelled)"
    by (simp add: main_def)
  show ?thesis using a b c by blast
qed

theorem existing_output_stops_the_run_witness:
  "selection sample_world \<noteq> []
   \<and> snd (ReadInFirst15Lines (read_header sample_world) (selection sample_world))
        = Inr \<lparr>EffectiveDate = ''Q1/Q2''\<rparr>
   \<and> path_exists sample_world ''TEMP/Q1_Q2 Costing Allocations.xlsx''
   \<and> main sample_world =
        ([AskOpenFile, ReadHeader ''in.xlsx'', MakeDirs ''TEMP'',
          PathExists ''TEMP/Q1_Q2 Costing Allocations.xlsx'',
          ShowError ''file already exists''], AlreadyExists)
   \<and> snd (main sample_world) \<noteq> Done
   \<and> \<not> list_ex is_write (fst (main sample_world))"
proof -
  have s: "selection sample_world \<noteq> []" "selection sample_world = ''in.xlsx''"
    by (simp_all add: sample_world_def)
  have e: "path_exists sample_world
             (snd (CreateOutPutFileName (to_datetime sample_world) \<lparr>EffectiveDate = ''Q1/Q2''\<rparr>))"
    unfolding sample_path by (simp add: sample_world_def)
  from existing_output_stops_the_run[of sample_world "\<lparr>EffectiveDate = ''Q1/Q2''\<rparr>"]
    s(1) sample_header e
  have m: "main sample_world =
          ([AskOpenFile, ReadHeader (selection sample_world), MakeDirs OUTPUT_DIR,
            PathExists (snd (CreateOutPutFileName (to_datetime sample_world) \<lparr>EffectiveDate = ''Q1/Q2''\<rparr>)),
            ShowError ''file already exists''], AlreadyExists)"
    and nw: "\<not> list_ex is_write (fst (main sample_world))"
    by blast+
  have p: "path_exists sample_world ''TEMP/Q1_Q2 Costing Allocations.xlsx''"
    by (simp add: sample_world_def)
  show ?thesis
    using s sample_header p m nw by (simp add: sample_path OUTPUT_DIR_def)
qed

end
